theory Spec2Isabelle
  imports Complex_Main "HOL-Library.Monad_Syntax" "HOL-Library.Word" "HOL-Library.Multiset"
begin

unbundle bit_operations_syntax

section \<open>Vectors and scalar conventions\<close>

text \<open>
  The simulation of \<^verbatim>\<open>src/kernel.cu\<close> works on \<^verbatim>\<open>glm::vec3\<close> values of
  single-precision floats. The embedding that follows computes with exact reals: no
  rounding, no NaN, no infinity. It carries the properties that are about indices,
  ranges, buffers and the order of the phases. The velocity clamp and the bounds on the
  positions depend on the arithmetic of \<^verbatim>\<open>float\<close> itself; they are settled on the
  binary32 model of the brute-force path further down. C \<^verbatim>\<open>int\<close> is modelled by
  \<^typ>\<open>int\<close>; the indices and cell ids of a run stay far below \<open>2 ^ 31\<close>. The
  \<^verbatim>\<open>unsigned int\<close> of \<^verbatim>\<open>hash\<close> is a 32-bit word.
\<close>

datatype vec3 = Vec3 (vx: real) (vy: real) (vz: real)

instantiation vec3 :: ab_group_add
begin

definition zero_vec3 :: vec3 where
  "zero_vec3 = Vec3 0 0 0"

definition plus_vec3 :: "vec3 \<Rightarrow> vec3 \<Rightarrow> vec3" where
  "plus_vec3 a b = Vec3 (vx a + vx b) (vy a + vy b) (vz a + vz b)"

definition minus_vec3 :: "vec3 \<Rightarrow> vec3 \<Rightarrow> vec3" where
  "minus_vec3 a b = Vec3 (vx a - vx b) (vy a - vy b) (vz a - vz b)"

definition uminus_vec3 :: "vec3 \<Rightarrow> vec3" where
  "uminus_vec3 a = Vec3 (- vx a) (- vy a) (- vz a)"

instance
  by standard
    (simp_all add: zero_vec3_def plus_vec3_def minus_vec3_def uminus_vec3_def vec3.expand)

end

text \<open>\<^verbatim>\<open>v * s\<close> and \<^verbatim>\<open>v / s\<close> of glm, a vector and a scalar.\<close>

definition smul :: "vec3 \<Rightarrow> real \<Rightarrow> vec3" where
  "smul v s = Vec3 (vx v * s) (vy v * s) (vz v * s)"

definition sdiv :: "vec3 \<Rightarrow> real \<Rightarrow> vec3" where
  "sdiv v s = Vec3 (vx v / s) (vy v / s) (vz v / s)"

definition set_vx :: "vec3 \<Rightarrow> real \<Rightarrow> vec3" where
  "set_vx v a = Vec3 a (vy v) (vz v)"

definition set_vy :: "vec3 \<Rightarrow> real \<Rightarrow> vec3" where
  "set_vy v a = Vec3 (vx v) a (vz v)"

definition set_vz :: "vec3 \<Rightarrow> real \<Rightarrow> vec3" where
  "set_vz v a = Vec3 (vx v) (vy v) a"

definition glm_dot :: "vec3 \<Rightarrow> vec3 \<Rightarrow> real" where
  "glm_dot a b = vx a * vx b + vy a * vy b + vz a * vz b"

text \<open>\<^verbatim>\<open>glm::length(v)\<close> is \<^verbatim>\<open>sqrt(dot(v, v))\<close>.\<close>

definition glm_length :: "vec3 \<Rightarrow> real" where
  "glm_length v = sqrt (glm_dot v v)"

text \<open>\<^verbatim>\<open>glm::normalize(v)\<close> is \<^verbatim>\<open>v * inversesqrt(dot(v, v))\<close>.\<close>

definition glm_normalize :: "vec3 \<Rightarrow> vec3" where
  "glm_normalize v = smul v (1 / sqrt (glm_dot v v))"

definition glm_floor :: "vec3 \<Rightarrow> vec3" where
  "glm_floor v = Vec3 (of_int \<lfloor>vx v\<rfloor>) (of_int \<lfloor>vy v\<rfloor>) (of_int \<lfloor>vz v\<rfloor>)"

text \<open>The C conversion from a floating value to \<^verbatim>\<open>int\<close> truncates toward zero.\<close>

definition c_int :: "real \<Rightarrow> int" where
  "c_int r = (if 0 \<le> r then \<lfloor>r\<rfloor> else \<lceil>r\<rceil>)"

text \<open>C integer division truncates toward zero.\<close>

definition c_div :: "int \<Rightarrow> int \<Rightarrow> int" where
  "c_div a b = sgn a * sgn b * (\<bar>a\<bar> div \<bar>b\<bar>)"

section \<open>Configuration\<close>

definition blockSize :: int where "blockSize = 128"
definition dim :: int where "dim = 3"
definition maxNumGridSearch :: int where "maxNumGridSearch = dim * dim * dim"
definition gridOOB :: int where "gridOOB = - 1"

definition rule1Distance :: real where "rule1Distance = 5"
definition rule2Distance :: real where "rule2Distance = 3"
definition rule3Distance :: real where "rule3Distance = 5"

definition rule1Scale :: real where "rule1Scale = 1 / 100"
definition rule2Scale :: real where "rule2Scale = 1 / 10"
definition rule3Scale :: real where "rule3Scale = 1 / 100"

definition maxSpeed :: real where "maxSpeed = 1"

definition scene_scale :: real where "scene_scale = 100"

section \<open>Device memory\<close>

text \<open>
  A device array is a list. An access outside the allocation is undefined behaviour on
  the device; the model makes it the result \<open>None\<close>, which every later operation
  propagates.
\<close>

definition rd :: "'a list \<Rightarrow> int \<Rightarrow> 'a option" where
  "rd xs i = (if 0 \<le> i \<and> i < int (length xs) then Some (xs ! nat i) else None)"

definition wr :: "'a list \<Rightarrow> int \<Rightarrow> 'a \<Rightarrow> 'a list option" where
  "wr xs i v = (if 0 \<le> i \<and> i < int (length xs) then Some (xs[nat i := v]) else None)"

text \<open>
  A device pointer is the address of its allocation together with the contents of that
  allocation. No two pointer variables of the program ever hold the same address, so
  swapping two pointers is swapping two such values.
\<close>

datatype 'a devptr = DevPtr (addr: nat) (mem: "'a list")

definition upd :: "'a devptr \<Rightarrow> 'a list \<Rightarrow> 'a devptr" where
  "upd p xs = DevPtr (addr p) xs"

text \<open>
  The allocator: the set of live allocations and the next unused address.
  \<^verbatim>\<open>cudaMalloc\<close> leaves the new memory uninitialised; its contents are given by a
  parameter \<open>junk\<close> (address and offset to value). A negative element count is a
  request beyond any device, which \<^verbatim>\<open>checkCUDAError\<close> turns into an exit.
\<close>

type_synonym allocator = "nat set \<times> nat"

definition cudaMalloc ::
  "(nat \<Rightarrow> nat \<Rightarrow> 'a) \<Rightarrow> int \<Rightarrow> allocator \<Rightarrow> ('a devptr \<times> allocator) option" where
  "cudaMalloc junk n h =
     (if n < 0 then None
      else Some (DevPtr (snd h) (map (junk (snd h)) [0 ..< nat n]),
                 (insert (snd h) (fst h), snd h + 1)))"

definition cudaFree :: "'a devptr \<Rightarrow> nat set \<Rightarrow> nat set" where
  "cudaFree p lv = lv - {addr p}"

section \<open>Loops and kernel launches\<close>

text \<open>
  \<^verbatim>\<open>for (int i = a; i < n; i++) body\<close>, for a body that changes neither \<open>i\<close> nor
  \<open>n\<close>. A \<^verbatim>\<open>continue\<close> is a body that returns its state unchanged.
\<close>

function for_loop :: "int \<Rightarrow> int \<Rightarrow> (int \<Rightarrow> 's \<Rightarrow> 's option) \<Rightarrow> 's \<Rightarrow> 's option" where
  "for_loop i n body s =
     (if i < n then (case body i s of None \<Rightarrow> None | Some s' \<Rightarrow> for_loop (i + 1) n body s')
      else Some s)"
  by pat_completeness auto
termination
  by (relation "measure (\<lambda>(i, n, body, s). nat (n - i))") auto

declare for_loop.simps [simp del]

text \<open>
  A launch \<^verbatim>\<open>kern<<<blocks, blockSize>>>(...)\<close> runs one thread for every value
  \<open>0 .. blocks * blockSize - 1\<close> of \<^verbatim>\<open>thread_index()\<close>. Every kernel of the program
  writes, in thread \<open>index\<close>, only slots that no other thread reads or writes (for
  \<^verbatim>\<open>kernIdentifyCellStartEnd\<close>: when its input is sorted), so the threads are run one
  after the other in index order.
\<close>

definition launch :: "int \<Rightarrow> (int \<Rightarrow> 's \<Rightarrow> 's option) \<Rightarrow> 's \<Rightarrow> 's option" where
  "launch blocks kern s = for_loop 0 (blocks * blockSize) kern s"

section \<open>initSimulation\<close>

definition hash :: "32 word \<Rightarrow> 32 word" where
  "hash a0 =
     (let a = (a0 + 0x7ed55d16) + (push_bit 12 a0);
          a = (a XOR 0xc761c23c) XOR (drop_bit 19 a);
          a = (a + 0x165667b1) + (push_bit 5 a);
          a = (a + 0xd3a2646c) XOR (push_bit 9 a);
          a = (a + 0xfd7046c5) + (push_bit 3 a);
          a = (a XOR 0xb55a4f09) XOR (drop_bit 16 a)
      in a)"

text \<open>
  \<^verbatim>\<open>thrust::default_random_engine\<close> and \<^verbatim>\<open>thrust::uniform_real_distribution\<close> are
  library code; \<open>unitDistrib seed k\<close> stands for draw number \<open>k\<close> of the distribution
  \<^verbatim>\<open>unitDistrib(-1, 1)\<close> from the engine seeded with \<open>seed\<close>.
\<close>

definition generateRandomVec3 :: "(32 word \<Rightarrow> nat \<Rightarrow> real) \<Rightarrow> real \<Rightarrow> int \<Rightarrow> vec3" where
  "generateRandomVec3 unitDistrib time index =
     (let rng = hash (word_of_int (c_int (of_int index * time)))
      in Vec3 (unitDistrib rng 0) (unitDistrib rng 1) (unitDistrib rng 2))"

definition kernGenerateRandomPosArray ::
  "(32 word \<Rightarrow> nat \<Rightarrow> real) \<Rightarrow> int \<Rightarrow> int \<Rightarrow> real \<Rightarrow> int \<Rightarrow> vec3 list \<Rightarrow> vec3 list option" where
  "kernGenerateRandomPosArray unitDistrib time N scale index arr =
     (if index < N then do {
        let rand = generateRandomVec3 unitDistrib (of_int time) index;
        a \<leftarrow> rd arr index;
        arr \<leftarrow> wr arr index (set_vx a (scale * vx rand));
        a \<leftarrow> rd arr index;
        arr \<leftarrow> wr arr index (set_vy a (scale * vy rand));
        a \<leftarrow> rd arr index;
        wr arr index (set_vz a (scale * vz rand))
      } else Some arr)"

text \<open>
  The state of the program: its global variables. In \<^verbatim>\<open>initSimulation\<close> below the
  allocations succeed for every count that is not negative, and the check after the
  kernel launch is left out: a launch of no block (\<open>N = 0\<close>) leaves the memory as it
  is. The binary32 model of \<^verbatim>\<open>initSimulation\<close> further down has that check.
\<close>

record sim =
  numObjects :: int
  dev_pos :: "vec3 devptr"
  dev_vel1 :: "vec3 devptr"
  dev_vel2 :: "vec3 devptr"
  dev_particleArrayIndices :: "int devptr"
  dev_particleGridIndices :: "int devptr"
  dev_gridCellStartIndices :: "int devptr"
  dev_gridCellEndIndices :: "int devptr"
  dev_sortedPos :: "vec3 devptr"
  dev_sortedVel :: "vec3 devptr"
  gridCellCount :: int
  gridSideCount :: int
  gridCellWidth :: real
  gridInverseCellWidth :: real
  gridMinimum :: vec3
  live :: "nat set"

definition initSimulation ::
  "(32 word \<Rightarrow> nat \<Rightarrow> real) \<Rightarrow> (nat \<Rightarrow> nat \<Rightarrow> vec3) \<Rightarrow> (nat \<Rightarrow> nat \<Rightarrow> int) \<Rightarrow> int \<Rightarrow> sim option" where
  "initSimulation unitDistrib jv ji N = do {
     let fullBlocksPerGrid = c_div (N + blockSize - 1) blockSize;
     (pos0, h) \<leftarrow> cudaMalloc jv N ({}, 0);
     (vel1, h) \<leftarrow> cudaMalloc jv N h;
     (vel2, h) \<leftarrow> cudaMalloc jv N h;
     arr \<leftarrow> launch fullBlocksPerGrid (kernGenerateRandomPosArray unitDistrib 1 N scene_scale) (mem pos0);
     let cellWidth = 2 * max (max rule1Distance rule2Distance) rule3Distance;
     let halfSideCount = c_int (scene_scale / cellWidth) + 1;
     let sideCount = 2 * halfSideCount;
     let cellCount = sideCount * sideCount * sideCount;
     let halfGridWidth = cellWidth * of_int halfSideCount;
     (particleArrayIndices, h) \<leftarrow> cudaMalloc ji N h;
     (particleGridIndices, h) \<leftarrow> cudaMalloc ji N h;
     (gridCellStartIndices, h) \<leftarrow> cudaMalloc ji cellCount h;
     (gridCellEndIndices, h) \<leftarrow> cudaMalloc ji cellCount h;
     (sortedPos, h) \<leftarrow> cudaMalloc jv N h;
     (sortedVel, h) \<leftarrow> cudaMalloc jv N h;
     Some \<lparr> numObjects = N,
            dev_pos = upd pos0 arr,
            dev_vel1 = vel1,
            dev_vel2 = vel2,
            dev_particleArrayIndices = particleArrayIndices,
            dev_particleGridIndices = particleGridIndices,
            dev_gridCellStartIndices = gridCellStartIndices,
            dev_gridCellEndIndices = gridCellEndIndices,
            dev_sortedPos = sortedPos,
            dev_sortedVel = sortedVel,
            gridCellCount = cellCount,
            gridSideCount = sideCount,
            gridCellWidth = cellWidth,
            gridInverseCellWidth = 1 / cellWidth,
            gridMinimum = Vec3 (0 - halfGridWidth) (0 - halfGridWidth) (0 - halfGridWidth),
            live = fst h \<rparr>
   }"

section \<open>The velocity rules\<close>

record accum =
  neighborCount :: int
  center :: vec3
  separate :: vec3
  cohesion :: vec3

text \<open>
  The body of the neighbour loop, from \<^verbatim>\<open>glm::vec3 thatPos = pos[...]\<close> to the end of
  rule 3. \<^verbatim>\<open>computeVelocityChange\<close> and \<^verbatim>\<open>computeVelocityChangeInGrids\<close> hold the
  same text, the one with \<^verbatim>\<open>i\<close> where the other has \<^verbatim>\<open>boid\<close>.
\<close>

definition rules_body :: "vec3 \<Rightarrow> vec3 list \<Rightarrow> vec3 list \<Rightarrow> int \<Rightarrow> accum \<Rightarrow> accum option" where
  "rules_body thisPos pos vel boid a = do {
     thatPos \<leftarrow> rd pos boid;
     let distance = glm_length (thatPos - thisPos);
     let a = (if distance < rule1Distance
              then a\<lparr>center := center a + thatPos, neighborCount := neighborCount a + 1\<rparr>
              else a);
     let a = (if distance < rule2Distance
              then a\<lparr>separate := separate a - (thatPos - thisPos)\<rparr>
              else a);
     (if distance < rule3Distance
      then do { v \<leftarrow> rd vel boid; Some (a\<lparr>cohesion := cohesion a + v\<rparr>) }
      else Some a)
   }"

text \<open>The tail of both functions, from \<^verbatim>\<open>glm::vec3 toCenter(0.0f)\<close> to the return.\<close>

definition rules_result :: "vec3 \<Rightarrow> accum \<Rightarrow> vec3" where
  "rules_result thisPos a =
     (let toCenter = (if neighborCount a > 0
                      then sdiv (center a) (of_int (neighborCount a)) - thisPos
                      else 0)
      in smul toCenter rule1Scale + smul (separate a) rule2Scale + smul (cohesion a) rule3Scale)"

definition accum0 :: accum where
  "accum0 = \<lparr> neighborCount = 0, center = 0, separate = 0, cohesion = 0 \<rparr>"

text \<open>The parameter \<^verbatim>\<open>particleArrayIndices\<close> is never read; the caller passes \<^verbatim>\<open>NULL\<close>.\<close>

definition computeVelocityChange ::
  "int \<Rightarrow> int \<Rightarrow> int \<Rightarrow> int list option \<Rightarrow> vec3 list \<Rightarrow> vec3 list \<Rightarrow> vec3 option" where
  "computeVelocityChange start end' iSelf particleArrayIndices pos vel = do {
     thisPos \<leftarrow> rd pos iSelf;
     a \<leftarrow> for_loop start end'
            (\<lambda>i a. if i = iSelf then Some a else rules_body thisPos pos vel i a) accum0;
     Some (rules_result thisPos a)
   }"

text \<open>
  The parameters \<^verbatim>\<open>start\<close> and \<^verbatim>\<open>end\<close> are overwritten before they are read. The
  counter \<^verbatim>\<open>compare\<close> is written and never read, and is left out. A null
  \<^verbatim>\<open>indexToBoid\<close> is \<open>None\<close>.
\<close>

definition computeVelocityChangeInGrids ::
  "int list \<Rightarrow> int list \<Rightarrow> int list \<Rightarrow> int \<Rightarrow> int \<Rightarrow> int \<Rightarrow> int list option \<Rightarrow>
   vec3 list \<Rightarrow> vec3 list \<Rightarrow> vec3 option" where
  "computeVelocityChangeInGrids gridsToSearch gridStartIndices gridEndIndices start end' index
     indexToBoid pos vel = do {
     thisPos \<leftarrow> rd pos index;
     a \<leftarrow> for_loop 0 maxNumGridSearch
            (\<lambda>j a. do {
               grid \<leftarrow> rd gridsToSearch j;
               if grid = gridOOB then Some a
               else do {
                 start \<leftarrow> rd gridStartIndices grid;
                 end' \<leftarrow> rd gridEndIndices grid;
                 for_loop start end'
                   (\<lambda>i a. do {
                      boid \<leftarrow> (case indexToBoid of Some itb \<Rightarrow> rd itb i | None \<Rightarrow> Some i);
                      if boid = index then Some a else rules_body thisPos pos vel boid a
                    }) a
               }
             }) accum0;
     Some (rules_result thisPos a)
   }"

definition updateVelocities :: "vec3 list \<Rightarrow> vec3 \<Rightarrow> int \<Rightarrow> vec3 list \<Rightarrow> vec3 list option" where
  "updateVelocities vel1 acceleration index vel2 = do {
     v \<leftarrow> rd vel1 index;
     let newVel = v + acceleration;
     let currentSpeed = glm_length newVel;
     let speed = min currentSpeed maxSpeed;
     let norm = glm_normalize newVel;
     let norm = (if vx newVel = 0 \<and> vy newVel = 0 \<and> vz newVel = 0 then Vec3 0 0 0 else norm);
     wr vel2 index (smul norm speed)
   }"

definition kernUpdateVelocityBruteForce ::
  "int \<Rightarrow> vec3 list \<Rightarrow> vec3 list \<Rightarrow> int \<Rightarrow> vec3 list \<Rightarrow> vec3 list option" where
  "kernUpdateVelocityBruteForce N pos vel1 index vel2 =
     (if index \<ge> N then Some vel2
      else do {
        acceleration \<leftarrow> computeVelocityChange 0 N index None pos vel1;
        updateVelocities vel1 acceleration index vel2
      })"

section \<open>The integrator\<close>

definition kernUpdatePos :: "int \<Rightarrow> real \<Rightarrow> vec3 list \<Rightarrow> int \<Rightarrow> vec3 list \<Rightarrow> vec3 list option" where
  "kernUpdatePos N dt vel index pos =
     (if index \<ge> N then Some pos
      else do {
        thisPos \<leftarrow> rd pos index;
        v \<leftarrow> rd vel index;
        let thisPos = thisPos + smul v dt;
        let thisPos = set_vx thisPos (if vx thisPos < - scene_scale then scene_scale else vx thisPos);
        let thisPos = set_vy thisPos (if vy thisPos < - scene_scale then scene_scale else vy thisPos);
        let thisPos = set_vz thisPos (if vz thisPos < - scene_scale then scene_scale else vz thisPos);
        let thisPos = set_vx thisPos (if vx thisPos > scene_scale then - scene_scale else vx thisPos);
        let thisPos = set_vy thisPos (if vy thisPos > scene_scale then - scene_scale else vy thisPos);
        let thisPos = set_vz thisPos (if vz thisPos > scene_scale then - scene_scale else vz thisPos);
        wr pos index thisPos
      })"

section \<open>The uniform grid\<close>

definition gridIndex3Dto1D :: "int \<Rightarrow> int \<Rightarrow> int \<Rightarrow> int \<Rightarrow> int" where
  "gridIndex3Dto1D x y z gridResolution =
     (if x < 0 \<or> x \<ge> gridResolution \<or>
         y < 0 \<or> y \<ge> gridResolution \<or>
         z < 0 \<or> z \<ge> gridResolution
      then gridOOB
      else x + y * gridResolution + z * gridResolution * gridResolution)"

definition posToGrid :: "vec3 \<Rightarrow> vec3 \<Rightarrow> real \<Rightarrow> int \<Rightarrow> vec3" where
  "posToGrid pos gridMin inverseCellWidth gridResolution =
     (let grid = smul (pos - gridMin) inverseCellWidth;
          grid = glm_floor grid;
          backOff = gridResolution - 1;
          grid = (if c_int (vx grid) = gridResolution then set_vx grid (of_int backOff) else grid);
          grid = (if c_int (vy grid) = gridResolution then set_vy grid (of_int backOff) else grid);
          grid = (if c_int (vz grid) = gridResolution then set_vz grid (of_int backOff) else grid)
      in grid)"

definition posToGridIndex :: "vec3 \<Rightarrow> vec3 \<Rightarrow> real \<Rightarrow> int \<Rightarrow> int" where
  "posToGridIndex pos gridMin inverseCellWidth gridResolution =
     (let grid = posToGrid pos gridMin inverseCellWidth gridResolution
      in gridIndex3Dto1D (c_int (vx grid)) (c_int (vy grid)) (c_int (vz grid)) gridResolution)"

definition kernComputeIndices ::
  "int \<Rightarrow> int \<Rightarrow> vec3 \<Rightarrow> real \<Rightarrow> vec3 list \<Rightarrow> int \<Rightarrow> int list \<times> int list \<Rightarrow>
   (int list \<times> int list) option" where
  "kernComputeIndices N gridResolution gridMin inverseCellWidth pos index bufs =
     (case bufs of (indices, gridIndices) \<Rightarrow>
        if index < N then do {
          thisPos \<leftarrow> rd pos index;
          gridIndices \<leftarrow> wr gridIndices index
            (posToGridIndex thisPos gridMin inverseCellWidth gridResolution);
          indices \<leftarrow> wr indices index index;
          Some (indices, gridIndices)
        } else Some (indices, gridIndices))"

definition kernResetIntBuffer :: "int \<Rightarrow> int \<Rightarrow> int \<Rightarrow> int list \<Rightarrow> int list option" where
  "kernResetIntBuffer N value index intBuffer =
     (if index < N then wr intBuffer index value else Some intBuffer)"

definition kernIdentifyCellStartEnd ::
  "int \<Rightarrow> int list \<Rightarrow> int \<Rightarrow> int list \<times> int list \<Rightarrow> (int list \<times> int list) option" where
  "kernIdentifyCellStartEnd N particleGridIndices index bufs =
     (case bufs of (gridCellStartIndices, gridCellEndIndices) \<Rightarrow>
        if index < N then do {
          thisGrid \<leftarrow> rd particleGridIndices index;
          if index = 0 then do {
            gridCellStartIndices \<leftarrow> wr gridCellStartIndices thisGrid 0;
            Some (gridCellStartIndices, gridCellEndIndices)
          } else do {
            prevGrid \<leftarrow> rd particleGridIndices (index - 1);
            if index = N - 1 then do {
              gridCellEndIndices \<leftarrow> wr gridCellEndIndices thisGrid index;
              if thisGrid \<noteq> prevGrid then do {
                gridCellStartIndices \<leftarrow> wr gridCellStartIndices thisGrid index;
                Some (gridCellStartIndices, gridCellEndIndices)
              } else Some (gridCellStartIndices, gridCellEndIndices)
            } else if thisGrid \<noteq> prevGrid then do {
              gridCellStartIndices \<leftarrow> wr gridCellStartIndices thisGrid index;
              gridCellEndIndices \<leftarrow> wr gridCellEndIndices prevGrid index;
              Some (gridCellStartIndices, gridCellEndIndices)
            } else Some (gridCellStartIndices, gridCellEndIndices)
          }
        } else Some (gridCellStartIndices, gridCellEndIndices))"

text \<open>
  The local array \<^verbatim>\<open>int gridsToSearch[maxNumGridSearch]\<close> starts here as zeros; the
  three nested loops assign every one of its 27 slots before it is read.
\<close>

definition updateVelNeighborSearch ::
  "int \<Rightarrow> int \<Rightarrow> vec3 \<Rightarrow> real \<Rightarrow> real \<Rightarrow> int list \<Rightarrow> int list \<Rightarrow> int list option \<Rightarrow>
   vec3 list \<Rightarrow> vec3 list \<Rightarrow> int \<Rightarrow> vec3 list \<Rightarrow> vec3 list option" where
  "updateVelNeighborSearch N gridResolution gridMin inverseCellWidth cellWidth
     gridCellStartIndices gridCellEndIndices particleArrayIndices pos vel1 index vel2 =
     (if index < N then do {
        thisPos \<leftarrow> rd pos index;
        let thisGrid = posToGrid thisPos gridMin inverseCellWidth gridResolution;
        gridsToSearch \<leftarrow>
          for_loop (- 1) 2 (\<lambda>x g.
            for_loop (- 1) 2 (\<lambda>y g.
              for_loop (- 1) 2 (\<lambda>z g. do {
                let grid = gridIndex3Dto1D (c_int (vx thisGrid + of_int x))
                             (c_int (vy thisGrid + of_int y)) (c_int (vz thisGrid + of_int z))
                             gridResolution;
                let n = gridIndex3Dto1D (x + 1) (y + 1) (z + 1) dim;
                wr g n grid
              }) g) g) (replicate (nat maxNumGridSearch) 0);
        acceleration \<leftarrow> computeVelocityChangeInGrids gridsToSearch
          gridCellStartIndices gridCellEndIndices 0 N index particleArrayIndices pos vel1;
        updateVelocities vel1 acceleration index vel2
      } else Some vel2)"

definition kernUpdateVelNeighborSearchScattered ::
  "int \<Rightarrow> int \<Rightarrow> vec3 \<Rightarrow> real \<Rightarrow> real \<Rightarrow> int list \<Rightarrow> int list \<Rightarrow> int list \<Rightarrow>
   vec3 list \<Rightarrow> vec3 list \<Rightarrow> int \<Rightarrow> vec3 list \<Rightarrow> vec3 list option" where
  "kernUpdateVelNeighborSearchScattered N gridResolution gridMin inverseCellWidth cellWidth
     gridCellStartIndices gridCellEndIndices particleArrayIndices pos vel1 index vel2 =
     updateVelNeighborSearch N gridResolution gridMin inverseCellWidth cellWidth
       gridCellStartIndices gridCellEndIndices (Some particleArrayIndices) pos vel1 index vel2"

definition kernSortPosVel ::
  "int list \<Rightarrow> int \<Rightarrow> vec3 list \<Rightarrow> vec3 list \<Rightarrow> int \<Rightarrow> vec3 list \<times> vec3 list \<Rightarrow>
   (vec3 list \<times> vec3 list) option" where
  "kernSortPosVel particleArrayIndices N pos vel index bufs =
     (case bufs of (sortedPos, sortedVel) \<Rightarrow>
        if index < N then do {
          oldIndex \<leftarrow> rd particleArrayIndices index;
          p \<leftarrow> rd pos oldIndex;
          sortedPos \<leftarrow> wr sortedPos index p;
          v \<leftarrow> rd vel oldIndex;
          sortedVel \<leftarrow> wr sortedVel index v;
          Some (sortedPos, sortedVel)
        } else Some (sortedPos, sortedVel))"

definition kernUpdateVelNeighborSearchCoherent ::
  "int \<Rightarrow> int \<Rightarrow> vec3 \<Rightarrow> real \<Rightarrow> real \<Rightarrow> int list \<Rightarrow> int list \<Rightarrow>
   vec3 list \<Rightarrow> vec3 list \<Rightarrow> int \<Rightarrow> vec3 list \<Rightarrow> vec3 list option" where
  "kernUpdateVelNeighborSearchCoherent N gridResolution gridMin inverseCellWidth cellWidth
     gridCellStartIndices gridCellEndIndices pos vel1 index vel2 =
     updateVelNeighborSearch N gridResolution gridMin inverseCellWidth cellWidth
       gridCellStartIndices gridCellEndIndices None pos vel1 index vel2"

section \<open>stepSimulation\<close>

text \<open>
  \<^verbatim>\<open>thrust::sort_by_key(keys, keys + n, values)\<close> is library code. The steps take the
  sorting routine as a parameter \<open>sbk\<close>, from the keys and the values of the range to
  the sorted keys and the values carried along; \<open>sorts_by_key\<close> is what the library
  promises of it, with no promise on the order of equal keys.
\<close>

type_synonym sorter = "int list \<Rightarrow> int list \<Rightarrow> int list \<times> int list"

definition thrust_sort_by_key ::
  "sorter \<Rightarrow> int \<Rightarrow> int list \<Rightarrow> int list \<Rightarrow> (int list \<times> int list) option" where
  "thrust_sort_by_key sbk n keys vals =
     (if n < 0 \<or> n > int (length keys) \<or> n > int (length vals) then None
      else (case sbk (take (nat n) keys) (take (nat n) vals) of
              (ks, vs) \<Rightarrow> Some (ks @ drop (nat n) keys, vs @ drop (nat n) vals)))"

definition sorts_by_key :: "sorter \<Rightarrow> bool" where
  "sorts_by_key sbk \<longleftrightarrow>
     (\<forall>ks vs. length ks = length vs \<longrightarrow>
        (case sbk ks vs of (ks', vs') \<Rightarrow>
           length ks' = length ks \<and> length vs' = length vs \<and>
           sorted ks' \<and> mset (zip ks' vs') = mset (zip ks vs)))"

text \<open>One routine that keeps the promise: a stable insertion sort on the keys.\<close>

definition insort_by_key :: sorter where
  "insort_by_key ks vs = (let ps = sort_key fst (zip ks vs) in (map fst ps, map snd ps))"

definition stepSimulationNaive :: "real \<Rightarrow> sim \<Rightarrow> sim option" where
  "stepSimulationNaive dt st = do {
     let fullBlocksPerGrid = c_div (numObjects st + blockSize - 1) blockSize;
     vel2 \<leftarrow> launch fullBlocksPerGrid
       (kernUpdateVelocityBruteForce (numObjects st) (mem (dev_pos st)) (mem (dev_vel1 st)))
       (mem (dev_vel2 st));
     pos \<leftarrow> launch fullBlocksPerGrid (kernUpdatePos (numObjects st) dt vel2) (mem (dev_pos st));
     let st = st\<lparr>dev_pos := upd (dev_pos st) pos, dev_vel2 := upd (dev_vel2 st) vel2\<rparr>;
     let swap = dev_vel1 st;
     Some (st\<lparr>dev_vel1 := dev_vel2 st, dev_vel2 := swap\<rparr>)
   }"

definition stepSimulationScatteredGrid :: "sorter \<Rightarrow> real \<Rightarrow> sim \<Rightarrow> sim option" where
  "stepSimulationScatteredGrid sbk dt st = do {
     let fullBlocksPerGrid = c_div (numObjects st + blockSize - 1) blockSize;
     (indices, gridIndices) \<leftarrow> launch fullBlocksPerGrid
       (kernComputeIndices (numObjects st) (gridSideCount st) (gridMinimum st)
          (gridInverseCellWidth st) (mem (dev_pos st)))
       (mem (dev_particleArrayIndices st), mem (dev_particleGridIndices st));
     (gridIndices, indices) \<leftarrow> thrust_sort_by_key sbk (numObjects st) gridIndices indices;
     let fullGrids = c_int ((of_int (gridSideCount st) ^ 3 + of_int blockSize - 1) / of_int blockSize);
     starts \<leftarrow> launch fullGrids (kernResetIntBuffer (numObjects st) (- 1))
       (mem (dev_gridCellStartIndices st));
     ends \<leftarrow> launch fullGrids (kernResetIntBuffer (numObjects st) (- 1))
       (mem (dev_gridCellEndIndices st));
     (starts, ends) \<leftarrow> launch fullBlocksPerGrid
       (kernIdentifyCellStartEnd (numObjects st) gridIndices) (starts, ends);
     vel2 \<leftarrow> launch fullBlocksPerGrid
       (kernUpdateVelNeighborSearchScattered (numObjects st) (gridSideCount st) (gridMinimum st)
          (gridInverseCellWidth st) (gridCellWidth st) starts ends indices
          (mem (dev_pos st)) (mem (dev_vel1 st)))
       (mem (dev_vel2 st));
     pos \<leftarrow> launch fullBlocksPerGrid (kernUpdatePos (numObjects st) dt vel2) (mem (dev_pos st));
     let st = st\<lparr>dev_particleArrayIndices := upd (dev_particleArrayIndices st) indices,
                 dev_particleGridIndices := upd (dev_particleGridIndices st) gridIndices,
                 dev_gridCellStartIndices := upd (dev_gridCellStartIndices st) starts,
                 dev_gridCellEndIndices := upd (dev_gridCellEndIndices st) ends,
                 dev_pos := upd (dev_pos st) pos,
                 dev_vel2 := upd (dev_vel2 st) vel2\<rparr>;
     let swap = dev_vel1 st;
     Some (st\<lparr>dev_vel1 := dev_vel2 st, dev_vel2 := swap\<rparr>)
   }"

definition stepSimulationCoherentGrid :: "sorter \<Rightarrow> real \<Rightarrow> sim \<Rightarrow> sim option" where
  "stepSimulationCoherentGrid sbk dt st = do {
     let fullBlocksPerGrid = c_div (numObjects st + blockSize - 1) blockSize;
     (indices, gridIndices) \<leftarrow> launch fullBlocksPerGrid
       (kernComputeIndices (numObjects st) (gridSideCount st) (gridMinimum st)
          (gridInverseCellWidth st) (mem (dev_pos st)))
       (mem (dev_particleArrayIndices st), mem (dev_particleGridIndices st));
     (gridIndices, indices) \<leftarrow> thrust_sort_by_key sbk (numObjects st) gridIndices indices;
     let fullGrids = c_int ((of_int (gridSideCount st) ^ 3 + of_int blockSize - 1) / of_int blockSize);
     starts \<leftarrow> launch fullGrids (kernResetIntBuffer (numObjects st) (- 1))
       (mem (dev_gridCellStartIndices st));
     ends \<leftarrow> launch fullGrids (kernResetIntBuffer (numObjects st) (- 1))
       (mem (dev_gridCellEndIndices st));
     (starts, ends) \<leftarrow> launch fullBlocksPerGrid
       (kernIdentifyCellStartEnd (numObjects st) gridIndices) (starts, ends);
     (sortedPos, sortedVel) \<leftarrow> launch fullBlocksPerGrid
       (kernSortPosVel indices (numObjects st) (mem (dev_pos st)) (mem (dev_vel1 st)))
       (mem (dev_sortedPos st), mem (dev_sortedVel st));
     vel2 \<leftarrow> launch fullBlocksPerGrid
       (kernUpdateVelNeighborSearchCoherent (numObjects st) (gridSideCount st) (gridMinimum st)
          (gridInverseCellWidth st) (gridCellWidth st) starts ends sortedPos sortedVel)
       (mem (dev_vel2 st));
     sortedPos \<leftarrow> launch fullBlocksPerGrid (kernUpdatePos (numObjects st) dt vel2) sortedPos;
     let st = st\<lparr>dev_particleArrayIndices := upd (dev_particleArrayIndices st) indices,
                 dev_particleGridIndices := upd (dev_particleGridIndices st) gridIndices,
                 dev_gridCellStartIndices := upd (dev_gridCellStartIndices st) starts,
                 dev_gridCellEndIndices := upd (dev_gridCellEndIndices st) ends,
                 dev_sortedPos := upd (dev_sortedPos st) sortedPos,
                 dev_sortedVel := upd (dev_sortedVel st) sortedVel,
                 dev_vel2 := upd (dev_vel2 st) vel2\<rparr>;
     let swap = dev_pos st;
     let st = st\<lparr>dev_pos := dev_sortedPos st, dev_sortedPos := swap\<rparr>;
     let swap = dev_vel1 st;
     Some (st\<lparr>dev_vel1 := dev_vel2 st, dev_vel2 := swap\<rparr>)
   }"

text \<open>\<^verbatim>\<open>cudaFree\<close> takes the allocation out of the live set; the pointer keeps its value.\<close>

definition endSimulation :: "sim \<Rightarrow> sim" where
  "endSimulation st =
     (let lv = cudaFree (dev_vel1 st) (live st);
          lv = cudaFree (dev_vel2 st) lv;
          lv = cudaFree (dev_pos st) lv;
          lv = cudaFree (dev_sortedPos st) lv
      in st\<lparr>live := lv\<rparr>)"

section \<open>Reference definitions\<close>

text \<open>
  What the specification says of each operation, in its own words; the theorems below
  compare the code with them.
\<close>

text \<open>
  The cell coordinate on one axis: the floor of the scaled offset from the grid origin,
  pulled back to the last index when it comes out as the side count.
\<close>

definition cell_coord :: "real \<Rightarrow> real \<Rightarrow> real \<Rightarrow> int \<Rightarrow> int" where
  "cell_coord p origin inverseCellWidth side =
     (let c = \<lfloor>(p - origin) * inverseCellWidth\<rfloor> in if c = side then side - 1 else c)"

text \<open>
  The toroidal wrap of one coordinate: above the positive bound it becomes the negative
  bound, below the negative bound the positive one.
\<close>

definition wrap_coord :: "real \<Rightarrow> real" where
  "wrap_coord c = (if c > scene_scale then - scene_scale
                   else if c < - scene_scale then scene_scale else c)"

definition integrate :: "vec3 \<Rightarrow> vec3 \<Rightarrow> real \<Rightarrow> vec3" where
  "integrate p v dt =
     (let q = p + smul v dt in Vec3 (wrap_coord (vx q)) (wrap_coord (vy q)) (wrap_coord (vz q)))"

text \<open>The speed clamp: a vector longer than \<open>maxSpeed\<close> is scaled down to that length.\<close>

definition clamp_speed :: "vec3 \<Rightarrow> vec3" where
  "clamp_speed s = (if glm_length s > maxSpeed then smul s (maxSpeed / glm_length s) else s)"

text \<open>The positions that \<^verbatim>\<open>initSimulation\<close> generates for \<open>n\<close> agents.\<close>

definition init_positions :: "(32 word \<Rightarrow> nat \<Rightarrow> real) \<Rightarrow> nat \<Rightarrow> vec3 list" where
  "init_positions ud n =
     map (\<lambda>j. Vec3 (scene_scale * vx (generateRandomVec3 ud 1 (int j)))
                    (scene_scale * vy (generateRandomVec3 ud 1 (int j)))
                    (scene_scale * vz (generateRandomVec3 ud 1 (int j)))) [0 ..< n]"

text \<open>
  The three rules over a list of candidates (indices into the position and velocity
  data): the candidates inside a radius, the cohesion, separation and alignment terms,
  and their sum.
\<close>

definition in_radius :: "real \<Rightarrow> vec3 \<Rightarrow> vec3 list \<Rightarrow> int list \<Rightarrow> int list" where
  "in_radius R thisPos pos cands = filter (\<lambda>i. glm_length (pos ! nat i - thisPos) < R) cands"

definition cohesion_term :: "vec3 \<Rightarrow> vec3 list \<Rightarrow> int list \<Rightarrow> vec3" where
  "cohesion_term thisPos pos cands =
     (let ns = in_radius rule1Distance thisPos pos cands
      in if ns = [] then 0
         else smul (sdiv (sum_list (map (\<lambda>i. pos ! nat i) ns)) (of_nat (length ns)) - thisPos)
                rule1Scale)"

definition separation_term :: "vec3 \<Rightarrow> vec3 list \<Rightarrow> int list \<Rightarrow> vec3" where
  "separation_term thisPos pos cands =
     smul (- sum_list (map (\<lambda>i. pos ! nat i - thisPos) (in_radius rule2Distance thisPos pos cands)))
       rule2Scale"

definition alignment_term :: "vec3 \<Rightarrow> vec3 list \<Rightarrow> vec3 list \<Rightarrow> int list \<Rightarrow> vec3" where
  "alignment_term thisPos pos vel cands =
     smul (sum_list (map (\<lambda>i. vel ! nat i) (in_radius rule3Distance thisPos pos cands))) rule3Scale"

definition rule_sum :: "vec3 \<Rightarrow> vec3 list \<Rightarrow> vec3 list \<Rightarrow> int list \<Rightarrow> vec3" where
  "rule_sum thisPos pos vel cands =
     cohesion_term thisPos pos cands + separation_term thisPos pos cands +
     alignment_term thisPos pos vel cands"

text \<open>
  The candidates of an agent: for the brute-force search the indices of the range except
  its own; for the grid search the agents that the ranges of the cells to search hold,
  except itself.
\<close>

definition brute_candidates :: "int \<Rightarrow> int \<Rightarrow> int \<Rightarrow> int list" where
  "brute_candidates start end' iSelf = filter (\<lambda>i. i \<noteq> iSelf) [start .. end' - 1]"

definition boid_at :: "int list option \<Rightarrow> int \<Rightarrow> int" where
  "boid_at indexToBoid i = (case indexToBoid of Some itb \<Rightarrow> itb ! nat i | None \<Rightarrow> i)"

definition cell_boids :: "int list \<Rightarrow> int list \<Rightarrow> int list option \<Rightarrow> int \<Rightarrow> int list" where
  "cell_boids starts ends indexToBoid g =
     (if g = gridOOB then []
      else map (boid_at indexToBoid) [starts ! nat g .. ends ! nat g - 1])"

definition grid_candidates ::
  "int list \<Rightarrow> int list \<Rightarrow> int list \<Rightarrow> int list option \<Rightarrow> int \<Rightarrow> int list" where
  "grid_candidates gridsToSearch starts ends indexToBoid index =
     filter (\<lambda>b. b \<noteq> index) (concat (map (cell_boids starts ends indexToBoid) gridsToSearch))"

text \<open>One pass of the neighbour loop's body on a candidate whose reads are in range.\<close>

definition acc_step :: "vec3 \<Rightarrow> vec3 list \<Rightarrow> vec3 list \<Rightarrow> accum \<Rightarrow> int \<Rightarrow> accum" where
  "acc_step thisPos pos vel a b =
     (let thatPos = pos ! nat b;
          distance = glm_length (thatPos - thisPos);
          a = (if distance < rule1Distance
               then a\<lparr>center := center a + thatPos, neighborCount := neighborCount a + 1\<rparr>
               else a);
          a = (if distance < rule2Distance
               then a\<lparr>separate := separate a - (thatPos - thisPos)\<rparr>
               else a)
      in if distance < rule3Distance then a\<lparr>cohesion := cohesion a + vel ! nat b\<rparr> else a)"

text \<open>
  Every read that the grid search makes for cell \<open>g\<close> is inside its array: the two
  table entries of the cell, the slots of the permutation array over the cell's range,
  and the position and velocity of every agent found there.
\<close>

definition cell_reads_ok ::
  "int list \<Rightarrow> int list \<Rightarrow> int list option \<Rightarrow> vec3 list \<Rightarrow> vec3 list \<Rightarrow> int \<Rightarrow> bool" where
  "cell_reads_ok starts ends indexToBoid pos vel g \<longleftrightarrow>
     g = gridOOB \<or>
     (0 \<le> g \<and> g < int (length starts) \<and> g < int (length ends) \<and>
      list_all (\<lambda>i. (case indexToBoid of Some itb \<Rightarrow> 0 \<le> i \<and> i < int (length itb) | None \<Rightarrow> True) \<and>
                    0 \<le> boid_at indexToBoid i \<and> boid_at indexToBoid i < int (length pos) \<and>
                    boid_at indexToBoid i < int (length vel))
        [starts ! nat g .. ends ! nat g - 1])"

text \<open>
  Modelled from the spec: the entry point \<open>step(strategy, dt)\<close> of the engine and a run
  of several steps. The caller of the three step functions is not among the sources;
  the dispatch below only selects one of them.
\<close>

datatype strategy = BruteForce | ScatteredGrid | CoherentGrid

fun step :: "sorter \<Rightarrow> strategy \<Rightarrow> real \<Rightarrow> sim \<Rightarrow> sim option" where
  "step sbk BruteForce dt st = stepSimulationNaive dt st"
| "step sbk ScatteredGrid dt st = stepSimulationScatteredGrid sbk dt st"
| "step sbk CoherentGrid dt st = stepSimulationCoherentGrid sbk dt st"

fun run_steps :: "sorter \<Rightarrow> (strategy \<times> real) list \<Rightarrow> sim \<Rightarrow> sim option" where
  "run_steps sbk [] st = Some st"
| "run_steps sbk ((strat, dt) # rest) st =
     (case step sbk strat dt st of None \<Rightarrow> None | Some st' \<Rightarrow> run_steps sbk rest st')"

definition in_scene :: "vec3 \<Rightarrow> bool" where
  "in_scene p \<longleftrightarrow>
     - scene_scale \<le> vx p \<and> vx p \<le> scene_scale \<and>
     - scene_scale \<le> vy p \<and> vy p \<le> scene_scale \<and>
     - scene_scale \<le> vz p \<and> vz p \<le> scene_scale"

text \<open>
  Every per-agent buffer has one slot for each of the \<open>numObjects\<close> agents: the vector
  buffers, and with them the two index arrays.
\<close>

definition vec_sized :: "sim \<Rightarrow> bool" where
  "vec_sized st \<longleftrightarrow>
     0 \<le> numObjects st \<and>
     length (mem (dev_pos st)) = nat (numObjects st) \<and>
     length (mem (dev_vel1 st)) = nat (numObjects st) \<and>
     length (mem (dev_vel2 st)) = nat (numObjects st) \<and>
     length (mem (dev_sortedPos st)) = nat (numObjects st) \<and>
     length (mem (dev_sortedVel st)) = nat (numObjects st)"

definition sized :: "sim \<Rightarrow> bool" where
  "sized st \<longleftrightarrow>
     vec_sized st \<and>
     length (mem (dev_particleArrayIndices st)) = nat (numObjects st) \<and>
     length (mem (dev_particleGridIndices st)) = nat (numObjects st)"

text \<open>
  The new velocity of agent \<open>j\<close> under the brute-force strategy, and the state that one
  brute-force step leaves.
\<close>

definition brute_velocity :: "vec3 list \<Rightarrow> vec3 list \<Rightarrow> int \<Rightarrow> nat \<Rightarrow> vec3" where
  "brute_velocity pos vel N j =
     clamp_speed (vel ! j + rule_sum (pos ! j) pos vel (brute_candidates 0 N (int j)))"

definition naive_result :: "real \<Rightarrow> sim \<Rightarrow> sim" where
  "naive_result dt st =
     (let n = nat (numObjects st);
          vel2 = map (brute_velocity (mem (dev_pos st)) (mem (dev_vel1 st)) (numObjects st)) [0 ..< n];
          pos = map (\<lambda>j. integrate (mem (dev_pos st) ! j) (vel2 ! j) dt) [0 ..< n]
      in st\<lparr>dev_pos := upd (dev_pos st) pos, dev_vel1 := upd (dev_vel2 st) vel2,
             dev_vel2 := dev_vel1 st\<rparr>)"

text \<open>
  An example state: two agents one unit apart in the same grid cell, at rest, as
  \<^verbatim>\<open>initSimulation\<close> leaves them when the random source makes the draws
  \<open>two_boids_draw\<close> and the fresh device memory holds zero vectors and \<open>- 1\<close>.
\<close>

definition two_boids_draw :: "32 word \<Rightarrow> nat \<Rightarrow> real" where
  "two_boids_draw seed k = (if seed = hash 1 \<and> k = 0 then 2 / 100 else 1 / 100)"

definition two_boids :: sim where
  "two_boids =
     \<lparr> numObjects = 2,
       dev_pos = DevPtr 0 [Vec3 1 1 1, Vec3 2 1 1],
       dev_vel1 = DevPtr 1 [Vec3 0 0 0, Vec3 0 0 0],
       dev_vel2 = DevPtr 2 [Vec3 0 0 0, Vec3 0 0 0],
       dev_particleArrayIndices = DevPtr 3 [- 1, - 1],
       dev_particleGridIndices = DevPtr 4 [- 1, - 1],
       dev_gridCellStartIndices = DevPtr 5 (replicate 10648 (- 1)),
       dev_gridCellEndIndices = DevPtr 6 (replicate 10648 (- 1)),
       dev_sortedPos = DevPtr 7 [Vec3 0 0 0, Vec3 0 0 0],
       dev_sortedVel = DevPtr 8 [Vec3 0 0 0, Vec3 0 0 0],
       gridCellCount = 10648,
       gridSideCount = 22,
       gridCellWidth = 10,
       gridInverseCellWidth = 1 / 10,
       gridMinimum = Vec3 (- 110) (- 110) (- 110),
       live = {0, 1, 2, 3, 4, 5, 6, 7, 8} \<rparr>"

text \<open>
  A cell table of the program's grid whose first two entries have been reset and whose
  other entries hold 7.
\<close>

definition stale_table :: "int list" where
  "stale_table = [- 1, - 1] @ replicate 10646 7"

text \<open>
  Parts of the grid steps under names of their own, for the comparison of the two grid
  strategies: the cells that \<^verbatim>\<open>updateVelNeighborSearch\<close> collects for a home cell, the
  velocity its thread computes for one agent, and the phases that both grid steps run
  before the neighbour search (indices, sort, reset, cell ranges).
\<close>

definition search_cells :: "vec3 \<Rightarrow> int \<Rightarrow> int list option" where
  "search_cells thisGrid gridResolution =
     for_loop (- 1) 2 (\<lambda>x g.
       for_loop (- 1) 2 (\<lambda>y g.
         for_loop (- 1) 2 (\<lambda>z g. do {
           let grid = gridIndex3Dto1D (c_int (vx thisGrid + of_int x))
                        (c_int (vy thisGrid + of_int y)) (c_int (vz thisGrid + of_int z))
                        gridResolution;
           let n = gridIndex3Dto1D (x + 1) (y + 1) (z + 1) dim;
           wr g n grid
         }) g) g) (replicate (nat maxNumGridSearch) 0)"

definition thread_velocity ::
  "int \<Rightarrow> int \<Rightarrow> vec3 \<Rightarrow> real \<Rightarrow> int list \<Rightarrow> int list \<Rightarrow> int list option \<Rightarrow>
   vec3 list \<Rightarrow> vec3 list \<Rightarrow> int \<Rightarrow> vec3 option" where
  "thread_velocity N gridResolution gridMin inverseCellWidth starts ends indexToBoid pos vel1 index =
     do {
       thisPos \<leftarrow> rd pos index;
       gridsToSearch \<leftarrow>
         search_cells (posToGrid thisPos gridMin inverseCellWidth gridResolution) gridResolution;
       acceleration \<leftarrow> computeVelocityChangeInGrids gridsToSearch starts ends 0 N index
         indexToBoid pos vel1;
       v \<leftarrow> rd vel1 index;
       Some (clamp_speed (v + acceleration))
     }"

definition build_grid :: "sorter \<Rightarrow> sim \<Rightarrow> (int list \<times> int list \<times> int list \<times> int list) option" where
  "build_grid sbk st = do {
     let fullBlocksPerGrid = c_div (numObjects st + blockSize - 1) blockSize;
     (indices, gridIndices) \<leftarrow> launch fullBlocksPerGrid
       (kernComputeIndices (numObjects st) (gridSideCount st) (gridMinimum st)
          (gridInverseCellWidth st) (mem (dev_pos st)))
       (mem (dev_particleArrayIndices st), mem (dev_particleGridIndices st));
     (gridIndices, indices) \<leftarrow> thrust_sort_by_key sbk (numObjects st) gridIndices indices;
     let fullGrids = c_int ((of_int (gridSideCount st) ^ 3 + of_int blockSize - 1) / of_int blockSize);
     starts \<leftarrow> launch fullGrids (kernResetIntBuffer (numObjects st) (- 1))
       (mem (dev_gridCellStartIndices st));
     ends \<leftarrow> launch fullGrids (kernResetIntBuffer (numObjects st) (- 1))
       (mem (dev_gridCellEndIndices st));
     (starts, ends) \<leftarrow> launch fullBlocksPerGrid
       (kernIdentifyCellStartEnd (numObjects st) gridIndices) (starts, ends);
     Some (indices, gridIndices, starts, ends)
   }"

text \<open>
  The states from which a grid step makes no access outside an array. The steps reset
  only the first \<open>numObjects\<close> entries of the two cell tables, so what the other entries
  hold matters: entry \<open>c\<close> is harmless when both tables hold \<open>- 1\<close> there, or when the
  start is no index below zero and the end is at most \<open>numObjects\<close>. A state is ready
  for a grid step when its buffers have the right sizes, it has no more agents than
  cells, every position has a cell of the grid, and every entry that the reset leaves
  alone is harmless.
\<close>

definition ranges_ok :: "int \<Rightarrow> int list \<Rightarrow> int list \<Rightarrow> nat \<Rightarrow> bool" where
  "ranges_ok N starts ends c \<longleftrightarrow>
     (starts ! c = - 1 \<and> ends ! c = - 1) \<or> (0 \<le> starts ! c \<and> ends ! c \<le> N)"

definition cells_ok :: "int \<Rightarrow> int list \<Rightarrow> bool" where
  "cells_ok r g \<longleftrightarrow> length g = 27 \<and> (\<forall>c \<in> set g. c = gridOOB \<or> (0 \<le> c \<and> c < r ^ 3))"

definition grid_ready :: "sim \<Rightarrow> bool" where
  "grid_ready st \<longleftrightarrow>
     sized st \<and> 0 < gridSideCount st \<and> numObjects st \<le> gridSideCount st ^ 3 \<and>
     length (mem (dev_gridCellStartIndices st)) = nat (gridSideCount st ^ 3) \<and>
     length (mem (dev_gridCellEndIndices st)) = nat (gridSideCount st ^ 3) \<and>
     list_all (\<lambda>p. posToGridIndex p (gridMinimum st) (gridInverseCellWidth st) (gridSideCount st)
                    \<noteq> gridOOB) (mem (dev_pos st)) \<and>
     list_all (ranges_ok (numObjects st) (mem (dev_gridCellStartIndices st))
                 (mem (dev_gridCellEndIndices st)))
       [nat (numObjects st) ..< nat (gridSideCount st ^ 3)]"

text \<open>
  A second example state: agent 0 in cell 5582 and agent 1 in cell 5577, far apart and
  moving, as \<^verbatim>\<open>initSimulation\<close> leaves them with the draws \<open>crossed_draw\<close> when the
  fresh memory of the first velocity buffer holds \<open>crossed_junk\<close>. Sorting by cell puts
  agent 1 before agent 0.
\<close>

definition crossed_draw :: "32 word \<Rightarrow> nat \<Rightarrow> real" where
  "crossed_draw seed k = (if seed = hash 0 \<and> k = 0 then 1 / 2 else 1 / 100)"

definition crossed_junk :: "nat \<Rightarrow> nat \<Rightarrow> vec3" where
  "crossed_junk a k =
     (if a = 1 then (if k = 0 then Vec3 (1 / 2) 0 0 else Vec3 (1 / 4) 0 0) else Vec3 0 0 0)"

definition crossed_boids :: sim where
  "crossed_boids =
     two_boids\<lparr>dev_pos := DevPtr 0 [Vec3 50 1 1, Vec3 1 1 1],
               dev_vel1 := DevPtr 1 [Vec3 (1 / 2) 0 0, Vec3 (1 / 4) 0 0]\<rparr>"

section \<open>Single-precision arithmetic\<close>

text \<open>
  The definitions above compute with exact reals. Two properties of the program depend
  on what a \<^verbatim>\<open>float\<close> really is: the speed clamp, which squares its argument, and the
  bounds on the positions, which fail for a value that is no number. For them the
  brute-force path of the program is modelled a second time, over the values of IEEE 754
  binary32: a finite number, one of the two infinities, or NaN. An operation on finite
  operands rounds the exact result once, to the nearest binary32 number with ties to
  the even significand, and overflows to an infinity; the source is taken as written,
  without fused multiply-add. The sign of zero and the payload of NaN are left out (no
  operation below divides by a zero that could be negative). The names are those of the
  source with the suffix \<open>_f32\<close> (fields: \<open>32\<close>).
\<close>

datatype f32 = Fin real | PInf | NInf | NaN

definition pow2 :: "int \<Rightarrow> real" where
  "pow2 k = (if 0 \<le> k then 2 ^ nat k else 1 / 2 ^ nat (- k))"

text \<open>Rounding to the nearest integer, a tie to the even one.\<close>

definition round_even :: "real \<Rightarrow> int" where
  "round_even q =
     (let f = \<lfloor>q\<rfloor>
      in if q - of_int f < 1 / 2 then f
         else if q - of_int f > 1 / 2 then f + 1
         else if even f then f else f + 1)"

text \<open>
  The distance between neighbouring binary32 numbers around \<open>x\<close>: 24 significant bits,
  the least exponent \<open>- 126\<close> (below it the numbers are subnormal, \<open>1 / 2 ^ 149\<close> apart).
\<close>

definition ulp32 :: "real \<Rightarrow> real" where
  "ulp32 x = pow2 (max \<lfloor>log 2 \<bar>x\<bar>\<rfloor> (- 126) - 23)"

definition rnd :: "real \<Rightarrow> f32" where
  "rnd x =
     (if x = 0 then Fin 0
      else let y = of_int (round_even (x / ulp32 x)) * ulp32 x
           in if \<bar>y\<bar> \<ge> 2 ^ 128 then (if x > 0 then PInf else NInf) else Fin y)"

fun fneg :: "f32 \<Rightarrow> f32" where
  "fneg (Fin x) = Fin (- x)"
| "fneg PInf = NInf"
| "fneg NInf = PInf"
| "fneg NaN = NaN"

fun fadd :: "f32 \<Rightarrow> f32 \<Rightarrow> f32" where
  "fadd (Fin x) (Fin y) = rnd (x + y)"
| "fadd (Fin x) PInf = PInf"
| "fadd (Fin x) NInf = NInf"
| "fadd PInf (Fin y) = PInf"
| "fadd NInf (Fin y) = NInf"
| "fadd PInf PInf = PInf"
| "fadd NInf NInf = NInf"
| "fadd PInf NInf = NaN"
| "fadd NInf PInf = NaN"
| "fadd NaN b = NaN"
| "fadd a NaN = NaN"

definition fsub :: "f32 \<Rightarrow> f32 \<Rightarrow> f32" where
  "fsub a b = fadd a (fneg b)"

fun fmul :: "f32 \<Rightarrow> f32 \<Rightarrow> f32" where
  "fmul (Fin x) (Fin y) = rnd (x * y)"
| "fmul (Fin x) PInf = (if x = 0 then NaN else if 0 < x then PInf else NInf)"
| "fmul (Fin x) NInf = (if x = 0 then NaN else if 0 < x then NInf else PInf)"
| "fmul PInf (Fin y) = (if y = 0 then NaN else if 0 < y then PInf else NInf)"
| "fmul NInf (Fin y) = (if y = 0 then NaN else if 0 < y then NInf else PInf)"
| "fmul PInf PInf = PInf"
| "fmul NInf NInf = PInf"
| "fmul PInf NInf = NInf"
| "fmul NInf PInf = NInf"
| "fmul NaN b = NaN"
| "fmul a NaN = NaN"

fun fdiv :: "f32 \<Rightarrow> f32 \<Rightarrow> f32" where
  "fdiv (Fin x) (Fin y) =
     (if y = 0 then (if x = 0 then NaN else if 0 < x then PInf else NInf) else rnd (x / y))"
| "fdiv (Fin x) PInf = Fin 0"
| "fdiv (Fin x) NInf = Fin 0"
| "fdiv PInf (Fin y) = (if 0 \<le> y then PInf else NInf)"
| "fdiv NInf (Fin y) = (if 0 \<le> y then NInf else PInf)"
| "fdiv PInf PInf = NaN"
| "fdiv NInf NInf = NaN"
| "fdiv PInf NInf = NaN"
| "fdiv NInf PInf = NaN"
| "fdiv NaN b = NaN"
| "fdiv a NaN = NaN"

fun fsqrt :: "f32 \<Rightarrow> f32" where
  "fsqrt (Fin x) = (if x < 0 then NaN else rnd (sqrt x))"
| "fsqrt PInf = PInf"
| "fsqrt NInf = NaN"
| "fsqrt NaN = NaN"

text \<open>The comparisons \<^verbatim>\<open><\<close> and \<^verbatim>\<open>==\<close>: false whenever an operand is NaN.\<close>

fun flt :: "f32 \<Rightarrow> f32 \<Rightarrow> bool" where
  "flt (Fin x) (Fin y) \<longleftrightarrow> x < y"
| "flt (Fin x) PInf \<longleftrightarrow> True"
| "flt NInf (Fin y) \<longleftrightarrow> True"
| "flt NInf PInf \<longleftrightarrow> True"
| "flt a b \<longleftrightarrow> False"

fun feq :: "f32 \<Rightarrow> f32 \<Rightarrow> bool" where
  "feq (Fin x) (Fin y) \<longleftrightarrow> x = y"
| "feq PInf PInf \<longleftrightarrow> True"
| "feq NInf NInf \<longleftrightarrow> True"
| "feq a b \<longleftrightarrow> False"

definition fle :: "f32 \<Rightarrow> f32 \<Rightarrow> bool" where
  "fle a b \<longleftrightarrow> flt a b \<or> feq a b"

text \<open>
  \<^verbatim>\<open>fmin\<close> of the C library returns the other operand when one is NaN;
  \<^verbatim>\<open>std::max(a, b)\<close> is \<^verbatim>\<open>(a < b) ? b : a\<close>.
\<close>

definition fmin :: "f32 \<Rightarrow> f32 \<Rightarrow> f32" where
  "fmin a b = (if a = NaN then b else if b = NaN then a else if flt a b then a else b)"

definition std_max :: "f32 \<Rightarrow> f32 \<Rightarrow> f32" where
  "std_max a b = (if flt a b then b else a)"

text \<open>
  The conversions between \<^verbatim>\<open>int\<close> and \<^verbatim>\<open>float\<close>. The conversion to \<^verbatim>\<open>int\<close>
  truncates; for a value that is no number or has no \<^verbatim>\<open>int\<close> it is undefined (\<open>None\<close>).
\<close>

definition i2f :: "int \<Rightarrow> f32" where
  "i2f k = rnd (of_int k)"

fun f2i :: "f32 \<Rightarrow> int option" where
  "f2i (Fin x) = (if - (2 ^ 31) \<le> c_int x \<and> c_int x < 2 ^ 31 then Some (c_int x) else None)"
| "f2i a = None"

datatype fvec3 = FVec3 (fx: f32) (fy: f32) (fz: f32)

definition fvec_add :: "fvec3 \<Rightarrow> fvec3 \<Rightarrow> fvec3" where
  "fvec_add a b = FVec3 (fadd (fx a) (fx b)) (fadd (fy a) (fy b)) (fadd (fz a) (fz b))"

definition fvec_sub :: "fvec3 \<Rightarrow> fvec3 \<Rightarrow> fvec3" where
  "fvec_sub a b = FVec3 (fsub (fx a) (fx b)) (fsub (fy a) (fy b)) (fsub (fz a) (fz b))"

definition fvec_scale :: "fvec3 \<Rightarrow> f32 \<Rightarrow> fvec3" where
  "fvec_scale v s = FVec3 (fmul (fx v) s) (fmul (fy v) s) (fmul (fz v) s)"

definition fvec_div :: "fvec3 \<Rightarrow> f32 \<Rightarrow> fvec3" where
  "fvec_div v s = FVec3 (fdiv (fx v) s) (fdiv (fy v) s) (fdiv (fz v) s)"

definition fvec_zero :: fvec3 where
  "fvec_zero = FVec3 (Fin 0) (Fin 0) (Fin 0)"

text \<open>
  The functions of glm: \<^verbatim>\<open>dot(a, b)\<close> adds the three products from left to right,
  \<^verbatim>\<open>length(v)\<close> is \<^verbatim>\<open>sqrt(dot(v, v))\<close>, \<^verbatim>\<open>inversesqrt(x)\<close> is \<^verbatim>\<open>1 / sqrt(x)\<close> and
  \<^verbatim>\<open>normalize(v)\<close> is \<^verbatim>\<open>v * inversesqrt(dot(v, v))\<close>.
\<close>

definition glm_dot_f32 :: "fvec3 \<Rightarrow> fvec3 \<Rightarrow> f32" where
  "glm_dot_f32 a b = fadd (fadd (fmul (fx a) (fx b)) (fmul (fy a) (fy b))) (fmul (fz a) (fz b))"

definition glm_length_f32 :: "fvec3 \<Rightarrow> f32" where
  "glm_length_f32 v = fsqrt (glm_dot_f32 v v)"

definition glm_inversesqrt_f32 :: "f32 \<Rightarrow> f32" where
  "glm_inversesqrt_f32 x = fdiv (Fin 1) (fsqrt x)"

definition glm_normalize_f32 :: "fvec3 \<Rightarrow> fvec3" where
  "glm_normalize_f32 v = fvec_scale v (glm_inversesqrt_f32 (glm_dot_f32 v v))"

definition rule1Distance_f32 :: f32 where "rule1Distance_f32 = Fin 5"
definition rule2Distance_f32 :: f32 where "rule2Distance_f32 = Fin 3"
definition rule3Distance_f32 :: f32 where "rule3Distance_f32 = Fin 5"
definition rule1Scale_f32 :: f32 where "rule1Scale_f32 = rnd (1 / 100)"
definition rule2Scale_f32 :: f32 where "rule2Scale_f32 = rnd (1 / 10)"
definition rule3Scale_f32 :: f32 where "rule3Scale_f32 = rnd (1 / 100)"
definition maxSpeed_f32 :: f32 where "maxSpeed_f32 = Fin 1"
definition scene_scale_f32 :: f32 where "scene_scale_f32 = Fin 100"

section \<open>The brute-force path in single precision\<close>

definition generateRandomVec3_f32 ::
  "(32 word \<Rightarrow> nat \<Rightarrow> f32) \<Rightarrow> f32 \<Rightarrow> int \<Rightarrow> fvec3 option" where
  "generateRandomVec3_f32 unitDistrib time index = do {
     seed \<leftarrow> f2i (fmul (i2f index) time);
     let rng = hash (word_of_int seed);
     Some (FVec3 (unitDistrib rng 0) (unitDistrib rng 1) (unitDistrib rng 2))
   }"

definition kernGenerateRandomPosArray_f32 ::
  "(32 word \<Rightarrow> nat \<Rightarrow> f32) \<Rightarrow> int \<Rightarrow> int \<Rightarrow> f32 \<Rightarrow> int \<Rightarrow> fvec3 list \<Rightarrow> fvec3 list option" where
  "kernGenerateRandomPosArray_f32 unitDistrib time N scale index arr =
     (if index < N then do {
        rand \<leftarrow> generateRandomVec3_f32 unitDistrib (i2f time) index;
        a \<leftarrow> rd arr index;
        arr \<leftarrow> wr arr index (FVec3 (fmul scale (fx rand)) (fy a) (fz a));
        a \<leftarrow> rd arr index;
        arr \<leftarrow> wr arr index (FVec3 (fx a) (fmul scale (fy rand)) (fz a));
        a \<leftarrow> rd arr index;
        wr arr index (FVec3 (fx a) (fy a) (fmul scale (fz rand)))
      } else Some arr)"

record sim_f32 =
  numObjects32 :: int
  dev_pos32 :: "fvec3 devptr"
  dev_vel1_32 :: "fvec3 devptr"
  dev_vel2_32 :: "fvec3 devptr"
  dev_particleArrayIndices32 :: "int devptr"
  dev_particleGridIndices32 :: "int devptr"
  dev_gridCellStartIndices32 :: "int devptr"
  dev_gridCellEndIndices32 :: "int devptr"
  dev_sortedPos32 :: "fvec3 devptr"
  dev_sortedVel32 :: "fvec3 devptr"
  gridCellCount32 :: int
  gridSideCount32 :: int
  gridCellWidth32 :: f32
  gridInverseCellWidth32 :: f32
  gridMinimum32 :: fvec3
  live32 :: "nat set"

text \<open>
  \<^verbatim>\<open>initSimulation\<close> once more. The result \<open>None\<close> stands for a run that does not
  return a state: an access outside an array, an undefined conversion, or the exit of
  \<^verbatim>\<open>checkCUDAError\<close>. A launch of no block is an invalid configuration, which the
  check after the launch turns into an exit. The contents of the fresh memory are the
  parameters \<open>jv\<close> and \<open>ji\<close>; a fresh vector can hold any binary32 values, NaN among
  them. Nothing in \<^verbatim>\<open>initSimulation\<close> writes the velocity buffers.
\<close>

definition initSimulation_f32 ::
  "(32 word \<Rightarrow> nat \<Rightarrow> f32) \<Rightarrow> (nat \<Rightarrow> nat \<Rightarrow> fvec3) \<Rightarrow> (nat \<Rightarrow> nat \<Rightarrow> int) \<Rightarrow> int \<Rightarrow>
   sim_f32 option" where
  "initSimulation_f32 unitDistrib jv ji N = do {
     let fullBlocksPerGrid = c_div (N + blockSize - 1) blockSize;
     (pos0, h) \<leftarrow> cudaMalloc jv N ({}, 0);
     (vel1, h) \<leftarrow> cudaMalloc jv N h;
     (vel2, h) \<leftarrow> cudaMalloc jv N h;
     arr \<leftarrow> (if fullBlocksPerGrid \<le> 0 then None
             else launch fullBlocksPerGrid
                    (kernGenerateRandomPosArray_f32 unitDistrib 1 N scene_scale_f32) (mem pos0));
     let cellWidth = fmul (Fin 2)
           (std_max (std_max rule1Distance_f32 rule2Distance_f32) rule3Distance_f32);
     q \<leftarrow> f2i (fdiv scene_scale_f32 cellWidth);
     let halfSideCount = q + 1;
     let sideCount = 2 * halfSideCount;
     let cellCount = sideCount * sideCount * sideCount;
     let halfGridWidth = fmul cellWidth (i2f halfSideCount);
     (particleArrayIndices, h) \<leftarrow> cudaMalloc ji N h;
     (particleGridIndices, h) \<leftarrow> cudaMalloc ji N h;
     (gridCellStartIndices, h) \<leftarrow> cudaMalloc ji cellCount h;
     (gridCellEndIndices, h) \<leftarrow> cudaMalloc ji cellCount h;
     (sortedPos, h) \<leftarrow> cudaMalloc jv N h;
     (sortedVel, h) \<leftarrow> cudaMalloc jv N h;
     Some \<lparr> numObjects32 = N,
            dev_pos32 = upd pos0 arr,
            dev_vel1_32 = vel1,
            dev_vel2_32 = vel2,
            dev_particleArrayIndices32 = particleArrayIndices,
            dev_particleGridIndices32 = particleGridIndices,
            dev_gridCellStartIndices32 = gridCellStartIndices,
            dev_gridCellEndIndices32 = gridCellEndIndices,
            dev_sortedPos32 = sortedPos,
            dev_sortedVel32 = sortedVel,
            gridCellCount32 = cellCount,
            gridSideCount32 = sideCount,
            gridCellWidth32 = cellWidth,
            gridInverseCellWidth32 = fdiv (Fin 1) cellWidth,
            gridMinimum32 = FVec3 (fsub (Fin 0) halfGridWidth) (fsub (Fin 0) halfGridWidth)
                              (fsub (Fin 0) halfGridWidth),
            live32 = fst h \<rparr>
   }"

record accum_f32 =
  neighborCount32 :: int
  center32 :: fvec3
  separate32 :: fvec3
  cohesion32 :: fvec3

definition computeVelocityChange_f32 ::
  "int \<Rightarrow> int \<Rightarrow> int \<Rightarrow> fvec3 list \<Rightarrow> fvec3 list \<Rightarrow> fvec3 option" where
  "computeVelocityChange_f32 start end' iSelf pos vel = do {
     thisPos \<leftarrow> rd pos iSelf;
     a \<leftarrow> for_loop start end'
            (\<lambda>i a. if i = iSelf then Some a
                   else do {
                     thatPos \<leftarrow> rd pos i;
                     let distance = glm_length_f32 (fvec_sub thatPos thisPos);
                     let a = (if flt distance rule1Distance_f32
                              then a\<lparr>center32 := fvec_add (center32 a) thatPos,
                                     neighborCount32 := neighborCount32 a + 1\<rparr>
                              else a);
                     let a = (if flt distance rule2Distance_f32
                              then a\<lparr>separate32 := fvec_sub (separate32 a) (fvec_sub thatPos thisPos)\<rparr>
                              else a);
                     (if flt distance rule3Distance_f32
                      then do { v \<leftarrow> rd vel i;
                                Some (a\<lparr>cohesion32 := fvec_add (cohesion32 a) v\<rparr>) }
                      else Some a)
                   })
            \<lparr> neighborCount32 = 0, center32 = fvec_zero, separate32 = fvec_zero,
              cohesion32 = fvec_zero \<rparr>;
     let toCenter = (if neighborCount32 a > 0
                     then fvec_sub (fvec_div (center32 a) (i2f (neighborCount32 a))) thisPos
                     else fvec_zero);
     Some (fvec_add (fvec_add (fvec_scale toCenter rule1Scale_f32)
                       (fvec_scale (separate32 a) rule2Scale_f32))
             (fvec_scale (cohesion32 a) rule3Scale_f32))
   }"

definition updateVelocities_f32 ::
  "fvec3 list \<Rightarrow> fvec3 \<Rightarrow> int \<Rightarrow> fvec3 list \<Rightarrow> fvec3 list option" where
  "updateVelocities_f32 vel1 acceleration index vel2 = do {
     v \<leftarrow> rd vel1 index;
     let newVel = fvec_add v acceleration;
     let currentSpeed = glm_length_f32 newVel;
     let speed = fmin currentSpeed maxSpeed_f32;
     let norm = glm_normalize_f32 newVel;
     let norm = (if feq (fx newVel) (Fin 0) \<and> feq (fy newVel) (Fin 0) \<and> feq (fz newVel) (Fin 0)
                 then fvec_zero else norm);
     wr vel2 index (fvec_scale norm speed)
   }"

definition kernUpdateVelocityBruteForce_f32 ::
  "int \<Rightarrow> fvec3 list \<Rightarrow> fvec3 list \<Rightarrow> int \<Rightarrow> fvec3 list \<Rightarrow> fvec3 list option" where
  "kernUpdateVelocityBruteForce_f32 N pos vel1 index vel2 =
     (if index \<ge> N then Some vel2
      else do {
        acceleration \<leftarrow> computeVelocityChange_f32 0 N index pos vel1;
        updateVelocities_f32 vel1 acceleration index vel2
      })"

definition kernUpdatePos_f32 ::
  "int \<Rightarrow> f32 \<Rightarrow> fvec3 list \<Rightarrow> int \<Rightarrow> fvec3 list \<Rightarrow> fvec3 list option" where
  "kernUpdatePos_f32 N dt vel index pos =
     (if index \<ge> N then Some pos
      else do {
        thisPos \<leftarrow> rd pos index;
        v \<leftarrow> rd vel index;
        let thisPos = fvec_add thisPos (fvec_scale v dt);
        let lo = fneg scene_scale_f32;
        let thisPos = FVec3 (if flt (fx thisPos) lo then scene_scale_f32 else fx thisPos)
                        (fy thisPos) (fz thisPos);
        let thisPos = FVec3 (fx thisPos)
                        (if flt (fy thisPos) lo then scene_scale_f32 else fy thisPos) (fz thisPos);
        let thisPos = FVec3 (fx thisPos) (fy thisPos)
                        (if flt (fz thisPos) lo then scene_scale_f32 else fz thisPos);
        let thisPos = FVec3 (if flt scene_scale_f32 (fx thisPos) then lo else fx thisPos)
                        (fy thisPos) (fz thisPos);
        let thisPos = FVec3 (fx thisPos)
                        (if flt scene_scale_f32 (fy thisPos) then lo else fy thisPos) (fz thisPos);
        let thisPos = FVec3 (fx thisPos) (fy thisPos)
                        (if flt scene_scale_f32 (fz thisPos) then lo else fz thisPos);
        wr pos index thisPos
      })"

definition stepSimulationNaive_f32 :: "f32 \<Rightarrow> sim_f32 \<Rightarrow> sim_f32 option" where
  "stepSimulationNaive_f32 dt st = do {
     let fullBlocksPerGrid = c_div (numObjects32 st + blockSize - 1) blockSize;
     vel2 \<leftarrow> launch fullBlocksPerGrid
       (kernUpdateVelocityBruteForce_f32 (numObjects32 st) (mem (dev_pos32 st))
          (mem (dev_vel1_32 st)))
       (mem (dev_vel2_32 st));
     pos \<leftarrow> launch fullBlocksPerGrid (kernUpdatePos_f32 (numObjects32 st) dt vel2)
       (mem (dev_pos32 st));
     let st = st\<lparr>dev_pos32 := upd (dev_pos32 st) pos, dev_vel2_32 := upd (dev_vel2_32 st) vel2\<rparr>;
     let swap = dev_vel1_32 st;
     Some (st\<lparr>dev_vel1_32 := dev_vel2_32 st, dev_vel2_32 := swap\<rparr>)
   }"

text \<open>Every coordinate of a position is a number between the two scene bounds.\<close>

definition in_scene_f32 :: "fvec3 \<Rightarrow> bool" where
  "in_scene_f32 p \<longleftrightarrow>
     fle (fneg scene_scale_f32) (fx p) \<and> fle (fx p) scene_scale_f32 \<and>
     fle (fneg scene_scale_f32) (fy p) \<and> fle (fy p) scene_scale_f32 \<and>
     fle (fneg scene_scale_f32) (fz p) \<and> fle (fz p) scene_scale_f32"

text \<open>Fresh memory in which the first velocity buffer (address 1) holds NaN.\<close>

definition nan_junk :: "nat \<Rightarrow> nat \<Rightarrow> fvec3" where
  "nan_junk a k = (if a = 1 then FVec3 NaN NaN NaN else fvec_zero)"

section \<open>Memory and loops\<close>


lemma rd_Some [simp]: "0 \<le> i \<Longrightarrow> i < int (length xs) \<Longrightarrow> rd xs i = Some (xs ! nat i)"
  by (simp add: rd_def)

lemma wr_Some [simp]: "0 \<le> i \<Longrightarrow> i < int (length xs) \<Longrightarrow> wr xs i v = Some (xs[nat i := v])"
  by (simp add: wr_def)

lemma wr_SomeD: "wr xs i v = Some ys \<Longrightarrow> 0 \<le> i \<and> i < int (length xs) \<and> ys = xs[nat i := v]"
  by (auto simp: wr_def split: if_splits)

lemma rd_SomeD: "rd xs i = Some y \<Longrightarrow> 0 \<le> i \<and> i < int (length xs) \<and> y = xs ! nat i"
  by (auto simp: rd_def split: if_splits)

lemma for_loop_done [simp]: "n \<le> i \<Longrightarrow> for_loop i n body s = Some s"
  by (simp add: for_loop.simps)

lemma for_loop_step:
  "i < n \<Longrightarrow> for_loop i n body s =
     (case body i s of None \<Rightarrow> None | Some s' \<Rightarrow> for_loop (i + 1) n body s')"
  by (subst for_loop.simps) simp

lemma for_loop_split:
  "i \<le> m \<Longrightarrow> m \<le> n \<Longrightarrow>
   for_loop i n body s = (case for_loop i m body s of None \<Rightarrow> None | Some s' \<Rightarrow> for_loop m n body s')"
proof (induction i m body s rule: for_loop.induct)
  case (1 i m body s)
  show ?case
  proof (cases "i < m")
    case True
    then have "i < n" using "1.prems" by simp
    show ?thesis
    proof (cases "body i s")
      case None
      then show ?thesis using True \<open>i < n\<close> by (simp add: for_loop_step)
    next
      case (Some s')
      then show ?thesis
        using True \<open>i < n\<close> "1.IH" [OF True Some] "1.prems" by (simp add: for_loop_step)
    qed
  next
    case False
    then have "i = m" using "1.prems" by simp
    then show ?thesis by simp
  qed
qed

lemma for_loop_last:
  "i \<le> n \<Longrightarrow> for_loop i (n + 1) body s =
     (case for_loop i n body s of None \<Rightarrow> None | Some s' \<Rightarrow> body n s')"
  by (subst for_loop_split [of i n "n + 1"])
    (auto simp: for_loop_step split: option.splits)

text \<open>The invariant rule for a loop that runs to its end.\<close>

lemma for_loop_inv:
  assumes run: "for_loop i n body s = Some s'"
    and le: "i \<le> n"
    and init: "P i s"
    and step: "\<And>k t t'. i \<le> k \<Longrightarrow> k < n \<Longrightarrow> P k t \<Longrightarrow> body k t = Some t' \<Longrightarrow> P (k + 1) t'"
  shows "P n s'"
  using run le init step
proof (induction i n body s rule: for_loop.induct)
  case (1 i n body s)
  show ?case
  proof (cases "i < n")
    case True
    from "1.prems"(1) True obtain t where t: "body i s = Some t"
      and rest: "for_loop (i + 1) n body t = Some s'"
      by (auto simp: for_loop_step split: option.splits)
    have "P (i + 1) t" using "1.prems"(4) [of i s t] True "1.prems"(3) t by simp
    moreover have "\<And>k u u'. i + 1 \<le> k \<Longrightarrow> k < n \<Longrightarrow> P k u \<Longrightarrow> body k u = Some u' \<Longrightarrow> P (k + 1) u'"
      using "1.prems"(4) by simp
    ultimately show ?thesis
      using "1.IH" [OF True t rest] True by simp
  next
    case False
    then show ?thesis using "1.prems" by simp
  qed
qed

text \<open>A loop whose every iteration succeeds from any state runs to its end.\<close>

lemma for_loop_total:
  assumes init: "P i s"
    and step: "\<And>k t. i \<le> k \<Longrightarrow> k < n \<Longrightarrow> P k t \<Longrightarrow> \<exists>t'. body k t = Some t' \<and> P (k + 1) t'"
  shows "\<exists>s'. for_loop i n body s = Some s'"
  using init step
proof (induction i n body s rule: for_loop.induct)
  case (1 i n body s)
  show ?case
  proof (cases "i < n")
    case True
    from "1.prems"(2) [of i s] True "1.prems"(1) obtain t where t: "body i s = Some t" "P (i + 1) t"
      by auto
    have "\<exists>s'. for_loop (i + 1) n body t = Some s'"
      using "1.IH" [OF True t(1) t(2)] "1.prems"(2) by simp
    then show ?thesis using True t by (simp add: for_loop_step)
  next
    case False
    then show ?thesis by simp
  qed
qed

lemma for_loop_cong:
  assumes "\<And>k t. i \<le> k \<Longrightarrow> k < n \<Longrightarrow> body k t = body' k t"
  shows "for_loop i n body s = for_loop i n body' s"
  using assms
proof (induction i n body s rule: for_loop.induct)
  case (1 i n body s)
  show ?case
  proof (cases "i < n")
    case True
    have b: "body i s = body' i s" using "1.prems" True by simp
    show ?thesis
    proof (cases "body i s")
      case None
      then show ?thesis using True b by (simp add: for_loop_step)
    next
      case (Some t)
      have "for_loop (i + 1) n body t = for_loop (i + 1) n body' t"
        using "1.IH" [OF True Some] "1.prems" by simp
      moreover have "body' i s = Some t" using b Some by simp
      ultimately show ?thesis using True Some by (simp add: for_loop_step)
    qed
  next
    case False
    then show ?thesis by simp
  qed
qed

lemma for_loop_noop:
  assumes "\<And>k. i \<le> k \<Longrightarrow> k < n \<Longrightarrow> body k s = Some s"
  shows "for_loop i n body s = Some s"
  using assms
proof (induction i n body s rule: for_loop.induct)
  case (1 i n body s)
  show ?case
  proof (cases "i < n")
    case True
    have b: "body i s = Some s" using "1.prems" True by simp
    have "for_loop (i + 1) n body s = Some s"
      using "1.IH" [OF True b] "1.prems" by simp
    then show ?thesis using True b by (simp add: for_loop_step)
  next
    case False
    then show ?thesis by simp
  qed
qed

text \<open>Threads beyond the guard of a kernel do nothing.\<close>

lemma launch_guarded:
  assumes "\<And>k t. N \<le> k \<Longrightarrow> kern k t = Some t" and "0 \<le> N" and "N \<le> blocks * blockSize"
  shows "launch blocks kern s = for_loop 0 N kern s"
proof -
  have "for_loop 0 (blocks * blockSize) kern s =
          (case for_loop 0 N kern s of None \<Rightarrow> None | Some s' \<Rightarrow> for_loop N (blocks * blockSize) kern s')"
    using assms by (intro for_loop_split) simp_all
  moreover have "\<And>s'. for_loop N (blocks * blockSize) kern s' = Some s'"
    using assms(1) by (intro for_loop_noop) simp
  ultimately show ?thesis
    by (simp add: launch_def split: option.splits)
qed

lemma fullBlocks_cover:
  assumes "0 \<le> N"
  shows "N \<le> c_div (N + blockSize - 1) blockSize * blockSize"
proof -
  have "c_div (N + blockSize - 1) blockSize = (N + 127) div 128"
    using assms by (simp add: c_div_def blockSize_def sgn_if)
  then show ?thesis using assms by (simp add: blockSize_def)
qed

lemma launch_full:
  assumes "\<And>k t. N \<le> k \<Longrightarrow> kern k t = Some t" and "0 \<le> N"
  shows "launch (c_div (N + blockSize - 1) blockSize) kern s = for_loop 0 N kern s"
  using assms fullBlocks_cover [of N] by (intro launch_guarded) simp_all

lemma launch_neg:
  assumes "N < 0"
  shows "launch (c_div (N + blockSize - 1) blockSize) kern s = Some s"
proof -
  have "c_div (N + blockSize - 1) blockSize * blockSize \<le> 0"
    using assms by (simp add: c_div_def blockSize_def sgn_if mult_le_0_iff pos_imp_zdiv_nonneg_iff)
  then show ?thesis by (simp add: launch_def)
qed


section \<open>The grid indexer\<close>


lemma c_int_of_int [simp]: "c_int (of_int k) = k"
  by (simp add: c_int_def)


lemma posToGrid_eq:
  "posToGrid pos gridMin icw side =
     Vec3 (of_int (cell_coord (vx pos) (vx gridMin) icw side))
          (of_int (cell_coord (vy pos) (vy gridMin) icw side))
          (of_int (cell_coord (vz pos) (vz gridMin) icw side))"
  by (simp add: posToGrid_def cell_coord_def Let_def glm_floor_def smul_def minus_vec3_def
      set_vx_def set_vy_def set_vz_def)

lemma gridIndex_nonneg:
  assumes "0 \<le> x" "x < r" "0 \<le> y" "y < r" "0 \<le> z" "z < (r::int)"
  shows "0 \<le> x + y * r + z * r * r"
proof -
  have "0 \<le> y * r" "0 \<le> z * r * r" using assms by simp_all
  with assms show ?thesis by linarith
qed

lemma gridIndex3Dto1D_OOB_iff:
  "gridIndex3Dto1D x y z r = gridOOB \<longleftrightarrow> (x < 0 \<or> x \<ge> r \<or> y < 0 \<or> y \<ge> r \<or> z < 0 \<or> z \<ge> r)"
proof (cases "x < 0 \<or> x \<ge> r \<or> y < 0 \<or> y \<ge> r \<or> z < 0 \<or> z \<ge> r")
  case True
  then show ?thesis by (simp add: gridIndex3Dto1D_def)
next
  case False
  then have "0 \<le> x + y * r + z * r * r"
    by (intro gridIndex_nonneg) simp_all
  then have "x + y * r + z * r * r \<noteq> - 1" by linarith
  with False show ?thesis by (simp add: gridIndex3Dto1D_def gridOOB_def)
qed

lemma cell_coord_boundary:
  assumes "0 < w" "p = origin + of_int side * w"
  shows "cell_coord p origin (1 / w) side = side - 1"
  using assms by (simp add: cell_coord_def)

text \<open>
  Claim C6. The grid indexer computes on every axis the floor of
  \<open>(position - gridOrigin) * inverseCellWidth\<close>, pulled back to the last index when it
  equals the side count; the cell id of coordinates \<open>x\<close>, \<open>y\<close>, \<open>z\<close> is
  \<open>x + y * side + z * side\<^sup>2\<close>; the sentinel \<open>gridOOB\<close> is returned exactly when a
  coordinate is negative or at least the side count; and a position at
  \<open>gridOrigin + side * cellWidth\<close> on an axis lands in the last cell of that axis.
\<close>

theorem posToGridIndex_spec:
  "posToGrid pos gridMin icw side =
     Vec3 (of_int (cell_coord (vx pos) (vx gridMin) icw side))
          (of_int (cell_coord (vy pos) (vy gridMin) icw side))
          (of_int (cell_coord (vz pos) (vz gridMin) icw side)) \<and>
   posToGridIndex pos gridMin icw side =
     gridIndex3Dto1D (cell_coord (vx pos) (vx gridMin) icw side)
       (cell_coord (vy pos) (vy gridMin) icw side) (cell_coord (vz pos) (vz gridMin) icw side) side \<and>
   gridIndex3Dto1D x y z side =
     (if x < 0 \<or> x \<ge> side \<or> y < 0 \<or> y \<ge> side \<or> z < 0 \<or> z \<ge> side then gridOOB
      else x + y * side + z * side\<^sup>2) \<and>
   (gridIndex3Dto1D x y z side = gridOOB \<longleftrightarrow>
      (x < 0 \<or> x \<ge> side \<or> y < 0 \<or> y \<ge> side \<or> z < 0 \<or> z \<ge> side)) \<and>
   (0 < cellWidth \<longrightarrow> icw = 1 / cellWidth \<longrightarrow>
      (vx pos = vx gridMin + of_int side * cellWidth \<longrightarrow>
         vx (posToGrid pos gridMin icw side) = of_int (side - 1)) \<and>
      (vy pos = vy gridMin + of_int side * cellWidth \<longrightarrow>
         vy (posToGrid pos gridMin icw side) = of_int (side - 1)) \<and>
      (vz pos = vz gridMin + of_int side * cellWidth \<longrightarrow>
         vz (posToGrid pos gridMin icw side) = of_int (side - 1)))"
proof (intro conjI impI)
  show "gridIndex3Dto1D x y z side =
     (if x < 0 \<or> x \<ge> side \<or> y < 0 \<or> y \<ge> side \<or> z < 0 \<or> z \<ge> side then gridOOB
      else x + y * side + z * side\<^sup>2)"
    by (simp add: gridIndex3Dto1D_def power2_eq_square mult.assoc)
qed (simp_all add: posToGrid_eq posToGridIndex_def gridIndex3Dto1D_OOB_iff cell_coord_boundary
      del: of_int_diff)

theorem posToGridIndex_spec_witness:
  "posToGrid (Vec3 110 110 110) (Vec3 (- 110) (- 110) (- 110)) (1 / 10) 22 = Vec3 21 21 21 \<and>
   posToGridIndex (Vec3 110 110 110) (Vec3 (- 110) (- 110) (- 110)) (1 / 10) 22 = 10647 \<and>
   gridIndex3Dto1D 21 21 21 22 = 10647 \<and>
   gridIndex3Dto1D 22 21 21 22 = gridOOB"
  using posToGridIndex_spec [of "Vec3 110 110 110" "Vec3 (- 110) (- 110) (- 110)" "1 / 10" 22 21 21 21 10]
    posToGridIndex_spec [of "Vec3 110 110 110" "Vec3 (- 110) (- 110) (- 110)" "1 / 10" 22 22 21 21 10]
  by (simp add: cell_coord_def gridOOB_def)


section \<open>The integrator and the speed clamp\<close>






lemma wrap_chain:
  fixes k :: "vec3 \<Rightarrow> 'a"
  shows "(let thisPos = q;
              thisPos = set_vx thisPos (if vx thisPos < - scene_scale then scene_scale else vx thisPos);
              thisPos = set_vy thisPos (if vy thisPos < - scene_scale then scene_scale else vy thisPos);
              thisPos = set_vz thisPos (if vz thisPos < - scene_scale then scene_scale else vz thisPos);
              thisPos = set_vx thisPos (if vx thisPos > scene_scale then - scene_scale else vx thisPos);
              thisPos = set_vy thisPos (if vy thisPos > scene_scale then - scene_scale else vy thisPos);
              thisPos = set_vz thisPos (if vz thisPos > scene_scale then - scene_scale else vz thisPos)
          in k thisPos) =
         k (Vec3 (wrap_coord (vx q)) (wrap_coord (vy q)) (wrap_coord (vz q)))"
  unfolding Let_def
  by (rule arg_cong [where f = k], rule vec3.expand)
    (simp add: set_vx_def set_vy_def set_vz_def wrap_coord_def scene_scale_def)

lemma kernUpdatePos_thread:
  assumes "0 \<le> index" "index < N" "index < int (length pos)" "index < int (length vel)"
  shows "kernUpdatePos N dt vel index pos =
           Some (pos[nat index := integrate (pos ! nat index) (vel ! nat index) dt])"
proof -
  have r: "rd pos index = Some (pos ! nat index)" "rd vel index = Some (vel ! nat index)"
    using assms by simp_all
  have g: "\<not> N \<le> index" using assms by simp
  have w: "\<And>v. wr pos index v = Some (pos[nat index := v])" using assms by simp
  show ?thesis
    unfolding kernUpdatePos_def wrap_chain
    by (simp only: r g w if_False bind.bind_lunit integrate_def Let_def)
qed






lemma glm_length_nonneg [simp]: "0 \<le> glm_length v"
  by (simp add: glm_length_def glm_dot_def)

lemma glm_length_zero_iff: "glm_length v = 0 \<longleftrightarrow> v = 0"
proof -
  have "vx v * vx v + vy v * vy v + vz v * vz v = 0 \<longleftrightarrow> vx v = 0 \<and> vy v = 0 \<and> vz v = 0"
    by (smt (verit) mult_eq_0_iff zero_le_square)
  then show ?thesis
    by (cases v) (simp add: glm_length_def glm_dot_def zero_vec3_def)
qed

lemma glm_length_smul: "glm_length (smul v k) = glm_length v * \<bar>k\<bar>"
proof -
  have "glm_dot (smul v k) (smul v k) = glm_dot v v * k\<^sup>2"
    by (simp add: glm_dot_def smul_def power2_eq_square algebra_simps)
  then show ?thesis
    by (simp add: glm_length_def real_sqrt_mult)
qed

lemma smul_smul: "smul (smul v a) b = smul v (a * b)"
  by (simp add: smul_def mult.assoc)

lemma smul_one [simp]: "smul v 1 = v"
  by (simp add: smul_def)


lemma updateVelocities_thread:
  assumes "0 \<le> index" "index < int (length vel1)" "index < int (length vel2)"
  shows "updateVelocities vel1 acc index vel2 =
           Some (vel2[nat index := clamp_speed (vel1 ! nat index + acc)])"
proof -
  define s where "s = vel1 ! nat index + acc"
  have z: "(vx s = 0 \<and> vy s = 0 \<and> vz s = 0) \<longleftrightarrow> s = 0"
    by (cases s) (simp add: zero_vec3_def)
  have key: "smul (if s = 0 then Vec3 0 0 0 else glm_normalize s) (min (glm_length s) maxSpeed)
          = clamp_speed s"
  proof (cases "s = 0")
    case True
    then show ?thesis
      by (simp add: clamp_speed_def glm_length_def glm_dot_def zero_vec3_def smul_def maxSpeed_def)
  next
    case False
    then have pos: "0 < glm_length s"
      using glm_length_zero_iff [of s] glm_length_nonneg [of s] by linarith
    show ?thesis
    proof (cases "glm_length s > maxSpeed")
      case True
      then show ?thesis using False
        by (simp add: clamp_speed_def glm_normalize_def smul_smul glm_length_def [symmetric]
            min_def)
    next
      case False
      then show ?thesis using \<open>s \<noteq> 0\<close> pos
        by (simp add: clamp_speed_def glm_normalize_def smul_smul glm_length_def [symmetric]
            min_def)
    qed
  qed
  have "updateVelocities vel1 acc index vel2 =
          wr vel2 index (smul (if vx s = 0 \<and> vy s = 0 \<and> vz s = 0 then Vec3 0 0 0
                               else glm_normalize s) (min (glm_length s) maxSpeed))"
    using assms unfolding s_def updateVelocities_def Let_def by simp
  also have "\<dots> = wr vel2 index (clamp_speed s)"
    by (simp only: z key)
  also have "\<dots> = Some (vel2[nat index := clamp_speed s])"
    using assms by simp
  finally show ?thesis by (simp only: s_def)
qed

text \<open>
  In exact arithmetic the velocity update stores the clamped sum of the old velocity and
  the acceleration: a sum \<open>s\<close> longer than \<open>maxSpeed\<close> becomes the positive multiple
  \<open>maxSpeed / |s|\<close> of \<open>s\<close>, of length exactly \<open>maxSpeed\<close>; a sum of length at most
  \<open>maxSpeed\<close> is stored as it is; the zero sum gives the zero vector. What the update
  stores in binary32 is the subject of the last section.
\<close>

lemma updateVelocities_exact:
  assumes "0 \<le> index" "index < int (length vel1)" "index < int (length vel2)"
  shows "updateVelocities vel1 acc index vel2 =
           Some (vel2[nat index := clamp_speed (vel1 ! nat index + acc)]) \<and>
         (glm_length s > maxSpeed \<longrightarrow>
            glm_length (clamp_speed s) = maxSpeed \<and>
            clamp_speed s = smul s (maxSpeed / glm_length s) \<and> 0 < maxSpeed / glm_length s) \<and>
         (glm_length s \<le> maxSpeed \<longrightarrow> clamp_speed s = s) \<and>
         clamp_speed 0 = 0"
proof (intro conjI impI)
  show "updateVelocities vel1 acc index vel2 =
           Some (vel2[nat index := clamp_speed (vel1 ! nat index + acc)])"
    by (rule updateVelocities_thread [OF assms])
next
  assume g: "glm_length s > maxSpeed"
  then have pos: "0 < glm_length s" by (simp add: maxSpeed_def)
  show "clamp_speed s = smul s (maxSpeed / glm_length s)"
    using g by (simp add: clamp_speed_def)
  then show "glm_length (clamp_speed s) = maxSpeed"
    using pos by (simp add: glm_length_smul maxSpeed_def)
  show "0 < maxSpeed / glm_length s"
    using pos by (simp add: maxSpeed_def)
next
  assume "glm_length s \<le> maxSpeed"
  then show "clamp_speed s = s" by (simp add: clamp_speed_def)
next
  show "clamp_speed 0 = 0"
    by (simp add: clamp_speed_def glm_length_def glm_dot_def zero_vec3_def maxSpeed_def)
qed


section \<open>Launches of the simple kernels\<close>


lemma for_loop_map_result_nat:
  assumes body: "\<And>k t. 0 \<le> k \<Longrightarrow> k < n \<Longrightarrow> length t = length out \<Longrightarrow> t ! nat k = out ! nat k \<Longrightarrow>
                   body k t = Some (t[nat k := f (nat k)])"
    and m: "int m \<le> n" "m \<le> length out"
  shows "for_loop 0 (int m) body out = Some (map f [0 ..< m] @ drop m out)"
  using m
proof (induction m)
  case 0
  then show ?case by simp
next
  case (Suc m)
  let ?t = "map f [0 ..< m] @ drop m out"
  have run: "for_loop 0 (int m) body out = Some ?t" using Suc by simp
  have lt: "length ?t = length out" using Suc.prems by simp
  have nth: "?t ! m = out ! m" using Suc.prems by (simp add: nth_append)
  have "body (int m) ?t = Some (?t[nat (int m) := f (nat (int m))])"
    using Suc.prems lt nth by (intro body) simp_all
  moreover have "?t[m := f m] = map f [0 ..< Suc m] @ drop (Suc m) out"
  proof -
    have d: "drop m out = out ! m # drop (Suc m) out"
      using Suc.prems by (simp add: Cons_nth_drop_Suc)
    have "?t[m := f m] = map f [0 ..< m] @ (drop m out)[0 := f m]"
      by (simp add: list_update_append)
    also have "\<dots> = map f [0 ..< m] @ f m # drop (Suc m) out"
      by (subst d) simp
    finally show ?thesis by simp
  qed
  ultimately have "body (int m) ?t = Some (map f [0 ..< Suc m] @ drop (Suc m) out)" by simp
  moreover have "for_loop 0 (int (Suc m)) body out =
      (case for_loop 0 (int m) body out of None \<Rightarrow> None | Some s' \<Rightarrow> body (int m) s')"
    using for_loop_last [of 0 "int m" body out] by (simp add: add.commute)
  ultimately show ?case using run by simp
qed

lemma for_loop_map_result:
  assumes body: "\<And>k t. 0 \<le> k \<Longrightarrow> k < n \<Longrightarrow> length t = length out \<Longrightarrow> t ! nat k = out ! nat k \<Longrightarrow>
                   body k t = Some (t[nat k := f (nat k)])"
    and "0 \<le> n" "n \<le> int (length out)"
  shows "for_loop 0 n body out = Some (map f [0 ..< nat n] @ drop (nat n) out)"
  using for_loop_map_result_nat [of n out body f "nat n"] assms by simp


lemma kernResetIntBuffer_launch:
  assumes "0 \<le> N" "N \<le> int (length buf)" "N \<le> blocks * blockSize"
  shows "launch blocks (kernResetIntBuffer N v) buf =
           Some (replicate (nat N) v @ drop (nat N) buf)"
proof -
  have "launch blocks (kernResetIntBuffer N v) buf = for_loop 0 N (kernResetIntBuffer N v) buf"
    using assms by (intro launch_guarded) (simp_all add: kernResetIntBuffer_def)
  also have "\<dots> = Some (map (\<lambda>_. v) [0 ..< nat N] @ drop (nat N) buf)"
    using assms by (intro for_loop_map_result) (simp_all add: kernResetIntBuffer_def)
  finally show ?thesis by (simp add: map_replicate_const)
qed

lemma fullGrids_22:
  "c_int ((of_int 22 ^ 3 + of_int blockSize - 1) / of_int blockSize) = 84"
proof -
  have "\<lfloor>(10775::real) / 128\<rfloor> = 84" by (simp add: floor_eq_iff)
  then show ?thesis by (simp add: c_int_def blockSize_def)
qed

text \<open>
  Claim C1 expects, on the sorted cell ids \<open>[0, 0, 0, 1, 1, 2]\<close>, the starts
  \<open>[0, 3, 5]\<close> and the ends \<open>[3, 5, 6]\<close>. The kernel gives the ends \<open>3\<close>, \<open>- 1\<close>
  and \<open>5\<close>: the last thread stores \<open>N - 1\<close> as the end of the last cell, and it never
  closes the cell before it when the last agent opens a cell of its own.
\<close>

theorem cell_ranges_example:
  "launch (c_div (6 + blockSize - 1) blockSize) (kernIdentifyCellStartEnd 6 [0, 0, 0, 1, 1, 2])
     ([- 1, - 1, - 1, - 1], [- 1, - 1, - 1, - 1]) = Some ([0, 3, 5, - 1], [3, - 1, 5, - 1])"
  by (simp add: c_div_def launch_def blockSize_def for_loop.simps kernIdentifyCellStartEnd_def
      rd_def wr_def)


lemma kernGenerateRandomPosArray_thread:
  assumes "0 \<le> k" "k < N" "N \<le> int (length arr)"
  shows "kernGenerateRandomPosArray ud tm N scale k arr =
           Some (arr[nat k := Vec3 (scale * vx (generateRandomVec3 ud (of_int tm) k))
                                   (scale * vy (generateRandomVec3 ud (of_int tm) k))
                                   (scale * vz (generateRandomVec3 ud (of_int tm) k))])"
  using assms
  by (simp add: kernGenerateRandomPosArray_def Let_def set_vx_def set_vy_def set_vz_def)

lemma kernGenerateRandomPosArray_launch:
  assumes "length arr = n"
  shows "launch (c_div (int n + blockSize - 1) blockSize)
           (kernGenerateRandomPosArray ud tm (int n) scale) arr =
         Some (map (\<lambda>j. Vec3 (scale * vx (generateRandomVec3 ud (of_int tm) (int j)))
                              (scale * vy (generateRandomVec3 ud (of_int tm) (int j)))
                              (scale * vz (generateRandomVec3 ud (of_int tm) (int j)))) [0 ..< n])"
proof -
  have "launch (c_div (int n + blockSize - 1) blockSize)
           (kernGenerateRandomPosArray ud tm (int n) scale) arr =
        for_loop 0 (int n) (kernGenerateRandomPosArray ud tm (int n) scale) arr"
    by (intro launch_full) (simp_all add: kernGenerateRandomPosArray_def)
  also have "\<dots> = Some (map (\<lambda>j. Vec3 (scale * vx (generateRandomVec3 ud (of_int tm) (int j)))
                              (scale * vy (generateRandomVec3 ud (of_int tm) (int j)))
                              (scale * vz (generateRandomVec3 ud (of_int tm) (int j)))) [0 ..< nat (int n)]
                       @ drop (nat (int n)) arr)"
    using assms by (intro for_loop_map_result) (simp_all add: kernGenerateRandomPosArray_thread)
  finally show ?thesis using assms by simp
qed


lemma initSimulation_eq:
  "initSimulation ud jv ji (int n) =
     Some \<lparr> numObjects = int n,
            dev_pos = DevPtr 0 (init_positions ud n),
            dev_vel1 = DevPtr 1 (map (jv 1) [0 ..< n]),
            dev_vel2 = DevPtr 2 (map (jv 2) [0 ..< n]),
            dev_particleArrayIndices = DevPtr 3 (map (ji 3) [0 ..< n]),
            dev_particleGridIndices = DevPtr 4 (map (ji 4) [0 ..< n]),
            dev_gridCellStartIndices = DevPtr 5 (map (ji 5) [0 ..< 10648]),
            dev_gridCellEndIndices = DevPtr 6 (map (ji 6) [0 ..< 10648]),
            dev_sortedPos = DevPtr 7 (map (jv 7) [0 ..< n]),
            dev_sortedVel = DevPtr 8 (map (jv 8) [0 ..< n]),
            gridCellCount = 10648,
            gridSideCount = 22,
            gridCellWidth = 10,
            gridInverseCellWidth = 1 / 10,
            gridMinimum = Vec3 (- 110) (- 110) (- 110),
            live = {0, 1, 2, 3, 4, 5, 6, 7, 8} \<rparr>"
proof -
  have c: "c_int (scene_scale / (2 * max (max rule1Distance rule2Distance) rule3Distance)) = 10"
    by (simp add: scene_scale_def rule1Distance_def rule2Distance_def rule3Distance_def c_int_def)
  have l: "launch (c_div (int n + blockSize - 1) blockSize)
             (kernGenerateRandomPosArray ud 1 (int n) scene_scale) (map (jv 0) [0 ..< n]) =
           Some (init_positions ud n)"
    using kernGenerateRandomPosArray_launch [of "map (jv 0) [0 ..< n]" n ud 1 scene_scale]
    by (simp add: init_positions_def)
  have n: "(2::nat) = Suc (Suc 0)" "(3::nat) = Suc (Suc (Suc 0))"
    "(4::nat) = Suc (Suc (Suc (Suc 0)))" "(5::nat) = Suc (Suc (Suc (Suc (Suc 0))))"
    "(6::nat) = Suc (Suc (Suc (Suc (Suc (Suc 0)))))"
    "(7::nat) = Suc (Suc (Suc (Suc (Suc (Suc (Suc 0))))))"
    "(8::nat) = Suc (Suc (Suc (Suc (Suc (Suc (Suc (Suc 0)))))))"
    by simp_all
  show ?thesis
    unfolding initSimulation_def cudaMalloc_def Let_def c
    by (auto simp add: l upd_def rule1Distance_def rule2Distance_def rule3Distance_def n
        simp del: upt_rec_numeral)
qed

text \<open>
  Claim C9 asks that teardown release every buffer of \<^verbatim>\<open>initSimulation\<close>. Of its
  nine allocations \<^verbatim>\<open>endSimulation\<close> frees four; the index arrays, the two cell
  tables and \<^verbatim>\<open>dev_sortedVel\<close> stay live.
\<close>

theorem teardown_leaks:
  "\<exists>st. initSimulation ud jv ji (int n) = Some st \<and>
         live st = {0, 1, 2, 3, 4, 5, 6, 7, 8} \<and>
         live (endSimulation st) = {3, 4, 5, 6, 8}"
  unfolding initSimulation_eq
  by (auto simp: endSimulation_def cudaFree_def Let_def)


section \<open>The velocity rules\<close>


lemma for_loop_foldl:
  assumes "\<And>k a. i \<le> k \<Longrightarrow> k < n \<Longrightarrow> body k a = Some (g a k)"
  shows "for_loop i n body a = Some (foldl g a [i .. n - 1])"
  using assms
proof (induction i n body a rule: for_loop.induct)
  case (1 i n body a)
  show ?case
  proof (cases "i < n")
    case True
    have b: "body i a = Some (g a i)" using "1.prems" True by simp
    have "for_loop (i + 1) n body (g a i) = Some (foldl g (g a i) [i + 1 .. n - 1])"
      using "1.IH" [OF True b] "1.prems" by simp
    moreover have "[i .. n - 1] = i # [i + 1 .. n - 1]"
      using True by (simp add: upto_rec1)
    ultimately show ?thesis using True b by (simp add: for_loop_step)
  next
    case False
    then show ?thesis by simp
  qed
qed

lemma rules_body_in_range:
  assumes "0 \<le> b" "b < int (length pos)" "b < int (length vel)"
  shows "rules_body thisPos pos vel b a = Some (acc_step thisPos pos vel a b)"
  using assms by (simp add: rules_body_def acc_step_def Let_def)

lemma foldl_acc_step_skip:
  "foldl (\<lambda>a k. if k = self then a else acc_step thisPos pos vel a k) a cs =
   foldl (acc_step thisPos pos vel) a (filter (\<lambda>k. k \<noteq> self) cs)"
  by (induction cs arbitrary: a) simp_all

lemma acc_step_fields:
  "neighborCount (acc_step thisPos pos vel a b) =
     neighborCount a + (if glm_length (pos ! nat b - thisPos) < rule1Distance then 1 else 0)"
  "center (acc_step thisPos pos vel a b) =
     center a + (if glm_length (pos ! nat b - thisPos) < rule1Distance then pos ! nat b else 0)"
  "separate (acc_step thisPos pos vel a b) =
     separate a - (if glm_length (pos ! nat b - thisPos) < rule2Distance
                   then pos ! nat b - thisPos else 0)"
  "cohesion (acc_step thisPos pos vel a b) =
     cohesion a + (if glm_length (pos ! nat b - thisPos) < rule3Distance then vel ! nat b else 0)"
  by (simp_all add: acc_step_def Let_def)

lemma neighborCount_foldl:
  "neighborCount (foldl (acc_step thisPos pos vel) a cs) =
     neighborCount a + int (length (in_radius rule1Distance thisPos pos cs))"
proof (induction cs arbitrary: a)
  case Nil
  show ?case by (simp add: in_radius_def)
next
  case (Cons b cs)
  show ?case by (simp add: Cons.IH acc_step_fields in_radius_def)
qed

lemma center_foldl:
  "center (foldl (acc_step thisPos pos vel) a cs) =
     center a + sum_list (map (\<lambda>i. pos ! nat i) (in_radius rule1Distance thisPos pos cs))"
proof (induction cs arbitrary: a)
  case Nil
  show ?case by (simp add: in_radius_def)
next
  case (Cons b cs)
  show ?case by (simp add: Cons.IH acc_step_fields in_radius_def add.assoc)
qed

lemma separate_foldl:
  "separate (foldl (acc_step thisPos pos vel) a cs) =
     separate a - sum_list (map (\<lambda>i. pos ! nat i - thisPos) (in_radius rule2Distance thisPos pos cs))"
proof (induction cs arbitrary: a)
  case Nil
  show ?case by (simp add: in_radius_def)
next
  case (Cons b cs)
  show ?case by (simp add: Cons.IH acc_step_fields in_radius_def algebra_simps)
qed

lemma cohesion_foldl:
  "cohesion (foldl (acc_step thisPos pos vel) a cs) =
     cohesion a + sum_list (map (\<lambda>i. vel ! nat i) (in_radius rule3Distance thisPos pos cs))"
proof (induction cs arbitrary: a)
  case Nil
  show ?case by (simp add: in_radius_def)
next
  case (Cons b cs)
  show ?case by (simp add: Cons.IH acc_step_fields in_radius_def add.assoc)
qed

lemma rules_result_foldl:
  "rules_result thisPos (foldl (acc_step thisPos pos vel) accum0 cs) = rule_sum thisPos pos vel cs"
proof -
  have z: "smul 0 k = 0" for k by (simp add: smul_def zero_vec3_def)
  show ?thesis
    by (simp add: rules_result_def rule_sum_def cohesion_term_def separation_term_def
        alignment_term_def neighborCount_foldl center_foldl separate_foldl cohesion_foldl
        accum0_def Let_def z)
qed


lemma computeVelocityChange_eq:
  assumes "0 \<le> iSelf" "iSelf < int (length pos)" "0 \<le> start" "end' \<le> int (length pos)"
    "end' \<le> int (length vel)"
  shows "computeVelocityChange start end' iSelf pai pos vel =
           Some (rule_sum (pos ! nat iSelf) pos vel (brute_candidates start end' iSelf))"
proof -
  let ?T = "pos ! nat iSelf"
  have "for_loop start end' (\<lambda>i a. if i = iSelf then Some a else rules_body ?T pos vel i a) accum0 =
          Some (foldl (\<lambda>a k. if k = iSelf then a else acc_step ?T pos vel a k) accum0
                  [start .. end' - 1])"
    using assms by (intro for_loop_foldl) (simp add: rules_body_in_range)
  then show ?thesis
    using assms
    by (simp add: computeVelocityChange_def foldl_acc_step_skip rules_result_foldl
        brute_candidates_def)
qed

lemma foldl_skip_map:
  "foldl (\<lambda>a i. if h i = self then a else f a (h i)) a xs =
   foldl f a (filter (\<lambda>b. b \<noteq> self) (map h xs))"
  by (induction xs arbitrary: a) simp_all

lemma foldl_concat_cells: "foldl f a (concat xss) = foldl (foldl f) a xss"
  by (induction xss arbitrary: a) simp_all

lemma foldl_cells:
  "foldl (\<lambda>a j. foldl f a (F (xs ! nat j))) a (map int [0 ..< length xs]) =
   foldl f a (concat (map F xs))"
proof -
  have "foldl (\<lambda>a j. foldl f a (F (xs ! nat j))) a (map int [0 ..< length xs]) =
        foldl (foldl f) a (map (\<lambda>j. F (xs ! j)) [0 ..< length xs])"
    by (simp add: foldl_map)
  also have "map (\<lambda>j. F (xs ! j)) [0 ..< length xs] = map F xs"
    by (rule nth_equalityI) simp_all
  finally show ?thesis by (simp add: foldl_concat_cells foldl_map)
qed

lemma upto_map_int: "[0 .. int n - 1] = map int [0 ..< n]"
proof (induction n)
  case 0
  show ?case by simp
next
  case (Suc n)
  have "[0 .. int (Suc n) - 1] = [0 .. int n - 1] @ [int n]"
    using upto_rec2 [of 0 "int n"] by simp
  then show ?case using Suc by simp
qed

lemma cell_loop_eq:
  assumes "cell_reads_ok starts ends itb pos vel g" "g \<noteq> gridOOB"
  shows "for_loop (starts ! nat g) (ends ! nat g)
           (\<lambda>i a. do {
              boid \<leftarrow> (case itb of Some t \<Rightarrow> rd t i | None \<Rightarrow> Some i);
              if boid = index then Some a else rules_body T pos vel boid a
            }) a =
         Some (foldl (acc_step T pos vel) a
                 (filter (\<lambda>b. b \<noteq> index) (cell_boids starts ends itb g)))"
proof -
  have ok: "\<And>i. starts ! nat g \<le> i \<Longrightarrow> i < ends ! nat g \<Longrightarrow>
      (case itb of Some t \<Rightarrow> 0 \<le> i \<and> i < int (length t) | None \<Rightarrow> True) \<and>
      0 \<le> boid_at itb i \<and> boid_at itb i < int (length pos) \<and> boid_at itb i < int (length vel)"
    using assms by (auto simp: cell_reads_ok_def list_all_iff)
  have "for_loop (starts ! nat g) (ends ! nat g)
           (\<lambda>i a. do {
              boid \<leftarrow> (case itb of Some t \<Rightarrow> rd t i | None \<Rightarrow> Some i);
              if boid = index then Some a else rules_body T pos vel boid a
            }) a =
        Some (foldl (\<lambda>a i. if boid_at itb i = index then a
                             else acc_step T pos vel a (boid_at itb i)) a
                [starts ! nat g .. ends ! nat g - 1])"
  proof (intro for_loop_foldl)
    fix k a
    assume k: "starts ! nat g \<le> k" "k < ends ! nat g"
    from ok [OF k] show "do {
              boid \<leftarrow> (case itb of Some t \<Rightarrow> rd t k | None \<Rightarrow> Some k);
              if boid = index then Some a else rules_body T pos vel boid a
            } = Some (if boid_at itb k = index then a else acc_step T pos vel a (boid_at itb k))"
      by (cases itb) (simp_all add: boid_at_def rules_body_in_range)
  qed
  then show ?thesis
    using assms(2) by (simp add: foldl_skip_map cell_boids_def)
qed

lemma computeVelocityChangeInGrids_eq:
  assumes "0 \<le> index" "index < int (length pos)" "length gts = nat maxNumGridSearch"
    "list_all (cell_reads_ok starts ends itb pos vel) gts"
  shows "computeVelocityChangeInGrids gts starts ends s e index itb pos vel =
           Some (rule_sum (pos ! nat index) pos vel (grid_candidates gts starts ends itb index))"
proof -
  let ?T = "pos ! nat index"
  let ?cell = "\<lambda>a g. foldl (acc_step ?T pos vel) a
                  (filter (\<lambda>b. b \<noteq> index) (cell_boids starts ends itb g))"
  have n: "maxNumGridSearch = int (length gts)"
    using assms(3) by (simp add: maxNumGridSearch_def dim_def)
  have "for_loop 0 maxNumGridSearch
          (\<lambda>j a. do {
             grid \<leftarrow> rd gts j;
             if grid = gridOOB then Some a
             else do {
               start \<leftarrow> rd starts grid;
               end' \<leftarrow> rd ends grid;
               for_loop start end'
                 (\<lambda>i a. do {
                    boid \<leftarrow> (case itb of Some t \<Rightarrow> rd t i | None \<Rightarrow> Some i);
                    if boid = index then Some a else rules_body ?T pos vel boid a
                  }) a
             }
           }) accum0 =
        Some (foldl (\<lambda>a j. ?cell a (gts ! nat j)) accum0 [0 .. maxNumGridSearch - 1])"
  proof (intro for_loop_foldl)
    fix j a
    assume j: "0 \<le> j" "j < maxNumGridSearch"
    then have jl: "nat j < length gts" using n by simp
    then have ok: "cell_reads_ok starts ends itb pos vel (gts ! nat j)"
      using assms(4) by (simp add: list_all_length)
    show "do {
             grid \<leftarrow> rd gts j;
             if grid = gridOOB then Some a
             else do {
               start \<leftarrow> rd starts grid;
               end' \<leftarrow> rd ends grid;
               for_loop start end'
                 (\<lambda>i a. do {
                    boid \<leftarrow> (case itb of Some t \<Rightarrow> rd t i | None \<Rightarrow> Some i);
                    if boid = index then Some a else rules_body ?T pos vel boid a
                  }) a
             }
           } = Some (?cell a (gts ! nat j))"
    proof (cases "gts ! nat j = gridOOB")
      case True
      then show ?thesis using j n by (simp add: cell_boids_def)
    next
      case False
      with ok have "0 \<le> gts ! nat j" "gts ! nat j < int (length starts)"
        "gts ! nat j < int (length ends)"
        by (simp_all add: cell_reads_ok_def)
      then show ?thesis
        using j n False cell_loop_eq [OF ok False] by simp
    qed
  qed
  moreover have "foldl (\<lambda>a j. ?cell a (gts ! nat j)) accum0 [0 .. maxNumGridSearch - 1] =
      foldl (acc_step ?T pos vel) accum0 (grid_candidates gts starts ends itb index)"
    unfolding n upto_map_int
    by (simp add: foldl_cells [where F = "\<lambda>g. filter (\<lambda>b. b \<noteq> index) (cell_boids starts ends itb g)"]
        grid_candidates_def filter_concat comp_def)
  ultimately show ?thesis
    using assms(1,2)
    by (simp add: computeVelocityChangeInGrids_def rules_result_foldl)
qed



lemma glm_length_axis [simp]: "glm_length (Vec3 a 0 0) = \<bar>a\<bar>"
  by (simp add: glm_length_def glm_dot_def)

text \<open>
  Claim C5. Both rule evaluators return the sum of the cohesion, separation and alignment
  terms of their candidates: \<^verbatim>\<open>computeVelocityChange\<close> over the indices of its range,
  \<^verbatim>\<open>computeVelocityChangeInGrids\<close> over the agents in the ranges of the cells to search.
  The agent itself is no candidate, distances are Euclidean and compared strictly, and
  the cohesion term is zero when no candidate is inside its radius.
\<close>

theorem velocity_rules_spec:
  "(0 \<le> iSelf \<and> iSelf < int (length pos) \<and> 0 \<le> start \<and> end' \<le> int (length pos) \<and>
    end' \<le> int (length vel) \<longrightarrow>
      computeVelocityChange start end' iSelf pai pos vel =
        Some (rule_sum (pos ! nat iSelf) pos vel (brute_candidates start end' iSelf))) \<and>
   (0 \<le> index \<and> index < int (length pos) \<and> length gts = nat maxNumGridSearch \<and>
    list_all (cell_reads_ok starts ends itb pos vel) gts \<longrightarrow>
      computeVelocityChangeInGrids gts starts ends s e index itb pos vel =
        Some (rule_sum (pos ! nat index) pos vel (grid_candidates gts starts ends itb index))) \<and>
   iSelf \<notin> set (brute_candidates start end' iSelf) \<and>
   index \<notin> set (grid_candidates gts starts ends itb index) \<and>
   rule_sum T pos vel cs =
     cohesion_term T pos cs + separation_term T pos cs + alignment_term T pos vel cs \<and>
   (in_radius rule1Distance T pos cs = [] \<longrightarrow> cohesion_term T pos cs = 0)"
proof (intro conjI impI)
  assume "0 \<le> iSelf \<and> iSelf < int (length pos) \<and> 0 \<le> start \<and> end' \<le> int (length pos) \<and>
    end' \<le> int (length vel)"
  then show "computeVelocityChange start end' iSelf pai pos vel =
        Some (rule_sum (pos ! nat iSelf) pos vel (brute_candidates start end' iSelf))"
    by (intro computeVelocityChange_eq) simp_all
next
  assume "0 \<le> index \<and> index < int (length pos) \<and> length gts = nat maxNumGridSearch \<and>
    list_all (cell_reads_ok starts ends itb pos vel) gts"
  then show "computeVelocityChangeInGrids gts starts ends s e index itb pos vel =
        Some (rule_sum (pos ! nat index) pos vel (grid_candidates gts starts ends itb index))"
    by (intro computeVelocityChangeInGrids_eq) simp_all
qed (simp_all add: brute_candidates_def grid_candidates_def rule_sum_def cohesion_term_def)

theorem velocity_rules_spec_witness:
  "computeVelocityChange 0 3 0 None [Vec3 0 0 0, Vec3 1 0 0, Vec3 4 0 0]
     [Vec3 0 0 0, Vec3 0 1 0, Vec3 0 0 1] = Some (Vec3 (- 3 / 40) (1 / 100) (1 / 100)) \<and>
   computeVelocityChangeInGrids (0 # replicate 26 (- 1)) [0] [3] 0 3 0 (Some [2, 1, 0])
     [Vec3 0 0 0, Vec3 1 0 0, Vec3 4 0 0] [Vec3 0 0 0, Vec3 0 1 0, Vec3 0 0 1] =
     Some (Vec3 (- 3 / 40) (1 / 100) (1 / 100)) \<and>
   cohesion_term (Vec3 0 0 0) [Vec3 0 0 0, Vec3 9 0 0] [1] = 0"
proof -
  let ?pos = "[Vec3 0 0 0, Vec3 1 0 0, Vec3 4 0 0]"
  let ?vel = "[Vec3 0 0 0, Vec3 0 1 0, Vec3 0 0 1]"
  note ev = rule_sum_def cohesion_term_def separation_term_def alignment_term_def in_radius_def
    rule1Distance_def rule2Distance_def rule3Distance_def rule1Scale_def rule2Scale_def
    rule3Scale_def smul_def sdiv_def plus_vec3_def minus_vec3_def uminus_vec3_def zero_vec3_def
    Let_def
  have b: "brute_candidates 0 3 0 = [1, 2]"
    by (simp add: brute_candidates_def upto_rec1)
  have g: "grid_candidates (0 # replicate 26 (- 1)) [0] [3] (Some [2, 1, 0]) 0 = [2, 1]"
    by (simp add: grid_candidates_def cell_boids_def boid_at_def gridOOB_def upto_rec1)
  have u: "[0 .. 2::int] = [0, 1, 2]"
    by (simp add: upto_rec1)
  have "cell_reads_ok [0] [3] (Some [2, 1, 0]) ?pos ?vel 0"
    by (simp add: cell_reads_ok_def boid_at_def gridOOB_def u)
  moreover have "list_all (cell_reads_ok [0] [3] (Some [2, 1, 0]) ?pos ?vel) (replicate 26 (- 1))"
    by (simp add: list_all_iff cell_reads_ok_def gridOOB_def)
  ultimately have ok:
    "list_all (cell_reads_ok [0] [3] (Some [2, 1, 0]) ?pos ?vel) (0 # replicate 26 (- 1))"
    by simp
  have 1: "computeVelocityChange 0 3 0 None ?pos ?vel = Some (Vec3 (- 3 / 40) (1 / 100) (1 / 100))"
    using velocity_rules_spec [of 0 ?pos 0 3 ?vel None] by (simp add: b ev)
  have 2: "computeVelocityChangeInGrids (0 # replicate 26 (- 1)) [0] [3] 0 3 0 (Some [2, 1, 0])
             ?pos ?vel = Some (Vec3 (- 3 / 40) (1 / 100) (1 / 100))"
    using velocity_rules_spec [of 0 ?pos 0 3 ?vel None 0 "0 # replicate 26 (- 1)" "[0]" "[3]"
        "Some [2, 1, 0]" 0 3] ok
    by (simp add: g ev maxNumGridSearch_def dim_def)
  have 3: "cohesion_term (Vec3 0 0 0) [Vec3 0 0 0, Vec3 9 0 0] [1] = 0"
    using velocity_rules_spec [where T = "Vec3 0 0 0" and pos = "[Vec3 0 0 0, Vec3 9 0 0]"
        and cs = "[1]"]
    by (simp add: in_radius_def minus_vec3_def rule1Distance_def)
  from 1 2 3 show ?thesis by blast
qed


section \<open>Launches that store one slot per thread\<close>


lemma launch_inv:
  assumes run: "launch blocks kern s = Some s'"
    and init: "P s"
    and step: "\<And>k t t'. P t \<Longrightarrow> kern k t = Some t' \<Longrightarrow> P t'"
  shows "P s'"
proof (cases "0 \<le> blocks * blockSize")
  case True
  show ?thesis
    using run True init step unfolding launch_def
    by (rule for_loop_inv [where P = "\<lambda>_. P"]) 
next
  case False
  then show ?thesis using run init by (simp add: launch_def)
qed

lemma wrap_coord_bounds: "- scene_scale \<le> wrap_coord c \<and> wrap_coord c \<le> scene_scale"
  by (simp add: wrap_coord_def scene_scale_def)

lemma in_scene_integrate: "in_scene (integrate p v dt)"
  by (simp add: in_scene_def integrate_def Let_def wrap_coord_bounds)

lemma kernUpdatePos_SomeD:
  assumes "kernUpdatePos N dt vel k t = Some t'" "k < N" "0 \<le> k"
  shows "k < int (length t) \<and> k < int (length vel) \<and>
         t' = t[nat k := integrate (t ! nat k) (vel ! nat k) dt]"
proof -
  from assms obtain p v where p: "rd t k = Some p" and v: "rd vel k = Some v"
    by (auto simp: kernUpdatePos_def split: bind_splits)
  from rd_SomeD [OF p] rd_SomeD [OF v]
  have r: "k < int (length t)" "k < int (length vel)" by simp_all
  with assms kernUpdatePos_thread [of k N t vel dt] show ?thesis by simp
qed

text \<open>
  A launch of a kernel whose thread \<open>k\<close> stores into slot \<open>k\<close> a value computed from
  \<open>k\<close> and the old content of that slot.
\<close>

lemma for_loop_slots:
  assumes run: "for_loop 0 n body out = Some out'" and n: "0 \<le> n"
    and body: "\<And>k t t'. 0 \<le> k \<Longrightarrow> k < n \<Longrightarrow> body k t = Some t' \<Longrightarrow>
                 k < int (length t) \<and> (\<exists>v. g k (t ! nat k) = Some v \<and> t' = t[nat k := v])"
  shows "length out' = length out \<and> n \<le> int (length out) \<and>
         (\<forall>k. 0 \<le> k \<and> k < n \<longrightarrow> g k (out ! nat k) = Some (out' ! nat k)) \<and>
         (\<forall>j. nat n \<le> j \<longrightarrow> out' ! j = out ! j)"
proof -
  let ?P = "\<lambda>k t. length t = length out \<and> k \<le> int (length out) \<and>
              (\<forall>j. 0 \<le> j \<and> j < k \<longrightarrow> g j (out ! nat j) = Some (t ! nat j)) \<and>
              (\<forall>j. nat k \<le> j \<longrightarrow> t ! j = out ! j)"
  have "?P n out'"
  proof (rule for_loop_inv [OF run n, where P = ?P])
    show "?P 0 out" by auto
  next
    fix k t t'
    assume k: "0 \<le> k" "k < n" and P: "?P k t" and b: "body k t = Some t'"
    from body [OF k b] obtain v where kl: "k < int (length t)"
      and v: "g k (t ! nat k) = Some v" and t': "t' = t[nat k := v]" by blast
    have tk: "t ! nat k = out ! nat k" using P by simp
    show "?P (k + 1) t'"
    proof (intro conjI allI impI)
      show "length t' = length out" using P t' by simp
      show "k + 1 \<le> int (length out)" using kl P by simp
    next
      fix j assume j: "0 \<le> j \<and> j < k + 1"
      show "g j (out ! nat j) = Some (t' ! nat j)"
      proof (cases "j = k")
        case True
        then show ?thesis using v tk t' kl k by simp
      next
        case False
        then have "j < k" using j by simp
        moreover have "nat j \<noteq> nat k" using False j k by linarith
        ultimately show ?thesis using P j t' by simp
      qed
    next
      fix j assume "nat (k + 1) \<le> j"
      then have "nat k \<le> j" "j \<noteq> nat k" using k by simp_all
      then show "t' ! j = out ! j" using P t' by simp
    qed
  qed
  then show ?thesis by simp
qed

lemma launch_slots:
  assumes run: "launch (c_div (N + blockSize - 1) blockSize) kern out = Some out'" and N: "0 \<le> N"
    and guard: "\<And>k t. N \<le> k \<Longrightarrow> kern k t = Some t"
    and body: "\<And>k t t'. 0 \<le> k \<Longrightarrow> k < N \<Longrightarrow> kern k t = Some t' \<Longrightarrow>
                 k < int (length t) \<and> (\<exists>v. g k (t ! nat k) = Some v \<and> t' = t[nat k := v])"
  shows "length out' = length out \<and> N \<le> int (length out) \<and>
         (\<forall>k. 0 \<le> k \<and> k < N \<longrightarrow> g k (out ! nat k) = Some (out' ! nat k)) \<and>
         (\<forall>j. nat N \<le> j \<longrightarrow> out' ! j = out ! j)"
proof -
  have "for_loop 0 N kern out = Some out'"
    using run launch_full [of N kern out] guard N by simp
  then show ?thesis using N body by (rule for_loop_slots)
qed

lemma kernUpdatePos_launch_SomeD:
  assumes run: "launch (c_div (N + blockSize - 1) blockSize) (kernUpdatePos N dt vel) pos = Some pos'"
    and N: "0 \<le> N"
  shows "length pos' = length pos \<and> N \<le> int (length pos) \<and> N \<le> int (length vel) \<and>
         (\<forall>k. 0 \<le> k \<and> k < N \<longrightarrow> pos' ! nat k = integrate (pos ! nat k) (vel ! nat k) dt) \<and>
         (\<forall>j. nat N \<le> j \<longrightarrow> pos' ! j = pos ! j)"
proof -
  let ?g = "\<lambda>k p. if k < int (length vel) then Some (integrate p (vel ! nat k) dt) else None"
  have s: "length pos' = length pos \<and> N \<le> int (length pos) \<and>
         (\<forall>k. 0 \<le> k \<and> k < N \<longrightarrow> ?g k (pos ! nat k) = Some (pos' ! nat k)) \<and>
         (\<forall>j. nat N \<le> j \<longrightarrow> pos' ! j = pos ! j)"
  proof (rule launch_slots [OF run N])
    fix k t assume "N \<le> k"
    then show "kernUpdatePos N dt vel k t = Some t" by (simp add: kernUpdatePos_def)
  next
    fix k t t'
    assume "0 \<le> k" "k < N" "kernUpdatePos N dt vel k t = Some t'"
    from kernUpdatePos_SomeD [OF this(3,2,1)]
    show "k < int (length t) \<and> (\<exists>v. ?g k (t ! nat k) = Some v \<and> t' = t[nat k := v])"
      by simp
  qed
  have v: "N \<le> int (length vel)"
  proof (cases "N = 0")
    case False
    then have "0 \<le> N - 1 \<and> N - 1 < N" using N by simp
    with s have "?g (N - 1) (pos ! nat (N - 1)) = Some (pos' ! nat (N - 1))" by blast
    then show ?thesis by (simp split: if_splits)
  qed simp
  have "\<forall>k. 0 \<le> k \<and> k < N \<longrightarrow> pos' ! nat k = integrate (pos ! nat k) (vel ! nat k) dt"
  proof (intro allI impI)
    fix k assume k: "0 \<le> k \<and> k < N"
    with s have "?g k (pos ! nat k) = Some (pos' ! nat k)" by blast
    then show "pos' ! nat k = integrate (pos ! nat k) (vel ! nat k) dt"
      by (simp split: if_splits)
  qed
  with s v show ?thesis by simp
qed


section \<open>What every step keeps\<close>


lemma updateVelocities_SomeD:
  assumes "updateVelocities vel1 acc k t = Some t'"
  shows "0 \<le> k \<and> k < int (length vel1) \<and> k < int (length t) \<and>
         t' = t[nat k := clamp_speed (vel1 ! nat k + acc)]"
proof -
  from assms obtain v where v: "rd vel1 k = Some v"
    by (auto simp: updateVelocities_def split: bind_splits)
  from assms v obtain w where w: "wr t k w = Some t'"
    by (auto simp: updateVelocities_def Let_def split: bind_splits)
  from rd_SomeD [OF v] wr_SomeD [OF w]
  have r: "0 \<le> k" "k < int (length vel1)" "k < int (length t)" by simp_all
  with assms updateVelocities_thread [of k vel1 t acc] show ?thesis by simp
qed

lemma kernUpdateVelocityBruteForce_length:
  "kernUpdateVelocityBruteForce N pos vel1 k t = Some t' \<Longrightarrow> length t' = length t"
  by (auto simp: kernUpdateVelocityBruteForce_def split: if_splits bind_splits
      dest!: updateVelocities_SomeD)

lemma updateVelNeighborSearch_length:
  "updateVelNeighborSearch N res gmin icw cw starts ends pai pos vel1 k t = Some t' \<Longrightarrow>
   length t' = length t"
  by (auto simp: updateVelNeighborSearch_def Let_def split: if_splits bind_splits
      dest!: updateVelocities_SomeD)

lemma kernSortPosVel_length:
  "kernSortPosVel pai N pos vel k (sp, sv) = Some (sp', sv') \<Longrightarrow>
   length sp' = length sp \<and> length sv' = length sv"
  by (auto simp: kernSortPosVel_def split: if_splits bind_splits dest!: wr_SomeD)

lemma kernUpdatePos_launch_in_scene:
  assumes "launch (c_div (N + blockSize - 1) blockSize) (kernUpdatePos N dt vel) pos = Some pos'"
    and "0 \<le> N" "length pos = nat N"
  shows "length pos' = nat N \<and> list_all in_scene pos'"
proof -
  from kernUpdatePos_launch_SomeD [OF assms(1,2)]
  have l: "length pos' = length pos"
    and v: "\<forall>k. 0 \<le> k \<and> k < N \<longrightarrow> pos' ! nat k = integrate (pos ! nat k) (vel ! nat k) dt"
    by simp_all
  have "in_scene (pos' ! j)" if "j < length pos'" for j
  proof -
    have "0 \<le> int j \<and> int j < N" using that l assms(3) by simp
    with v have "pos' ! nat (int j) = integrate (pos ! nat (int j)) (vel ! nat (int j)) dt"
      by blast
    then show ?thesis by (simp add: in_scene_integrate)
  qed
  then show ?thesis using l assms(3) by (simp add: list_all_length)
qed

lemma stepSimulationNaive_inv:
  assumes "vec_sized st" "stepSimulationNaive dt st = Some st'"
  shows "vec_sized st' \<and> numObjects st' = numObjects st \<and> list_all in_scene (mem (dev_pos st'))"
proof -
  let ?N = "numObjects st"
  let ?B = "c_div (?N + blockSize - 1) blockSize"
  from assms(2) obtain vel2 pos where
    v: "launch ?B (kernUpdateVelocityBruteForce ?N (mem (dev_pos st)) (mem (dev_vel1 st)))
          (mem (dev_vel2 st)) = Some vel2"
    and p: "launch ?B (kernUpdatePos ?N dt vel2) (mem (dev_pos st)) = Some pos"
    and st': "st' = st\<lparr>dev_pos := upd (dev_pos st) pos, dev_vel1 := upd (dev_vel2 st) vel2,
                        dev_vel2 := dev_vel1 st\<rparr>"
    by (auto simp: stepSimulationNaive_def Let_def split: bind_splits)
  have lv: "length vel2 = length (mem (dev_vel2 st))"
    using v by (rule launch_inv) (simp_all add: kernUpdateVelocityBruteForce_length)
  from assms(1) have N: "0 \<le> ?N" and l0: "length (mem (dev_pos st)) = nat ?N"
    unfolding vec_sized_def by blast+
  have lp: "length pos = nat ?N \<and> list_all in_scene pos"
    using p N l0 by (rule kernUpdatePos_launch_in_scene)
  show ?thesis
    using assms(1) lv lp by (simp add: st' vec_sized_def upd_def)
qed


lemma bindE:
  assumes "Option.bind m f = Some y"
  obtains x where "m = Some x" "f x = Some y"
  using assms by (auto split: bind_splits)

lemma stepSimulationScatteredGrid_SomeD:
  assumes "stepSimulationScatteredGrid sbk dt st = Some st'"
  shows "\<exists>starts ends indices vel2 pos.
     launch (c_div (numObjects st + blockSize - 1) blockSize)
       (kernUpdateVelNeighborSearchScattered (numObjects st) (gridSideCount st) (gridMinimum st)
          (gridInverseCellWidth st) (gridCellWidth st) starts ends indices
          (mem (dev_pos st)) (mem (dev_vel1 st))) (mem (dev_vel2 st)) = Some vel2 \<and>
     launch (c_div (numObjects st + blockSize - 1) blockSize)
       (kernUpdatePos (numObjects st) dt vel2) (mem (dev_pos st)) = Some pos \<and>
     dev_pos st' = upd (dev_pos st) pos \<and> dev_vel1 st' = upd (dev_vel2 st) vel2 \<and>
     dev_vel2 st' = dev_vel1 st \<and> dev_sortedPos st' = dev_sortedPos st \<and>
     dev_sortedVel st' = dev_sortedVel st \<and> numObjects st' = numObjects st"
  using assms unfolding stepSimulationScatteredGrid_def Let_def split_def
  apply (elim bindE)
  apply (rule exI)+
  apply (rule conjI, assumption)
  apply (rule conjI, assumption)
  apply (thin_tac "launch _ _ _ = Some _")+
  apply (thin_tac "thrust_sort_by_key _ _ _ _ = Some _")
  apply (auto simp: upd_def)
  done

lemma stepSimulationScatteredGrid_inv:
  assumes "vec_sized st" "stepSimulationScatteredGrid sbk dt st = Some st'"
  shows "vec_sized st' \<and> numObjects st' = numObjects st \<and> list_all in_scene (mem (dev_pos st'))"
proof -
  let ?N = "numObjects st"
  let ?B = "c_div (?N + blockSize - 1) blockSize"
  from stepSimulationScatteredGrid_SomeD [OF assms(2)] obtain starts ends indices vel2 pos where
    v: "launch ?B (kernUpdateVelNeighborSearchScattered ?N (gridSideCount st) (gridMinimum st)
          (gridInverseCellWidth st) (gridCellWidth st) starts ends indices
          (mem (dev_pos st)) (mem (dev_vel1 st))) (mem (dev_vel2 st)) = Some vel2"
    and p: "launch ?B (kernUpdatePos ?N dt vel2) (mem (dev_pos st)) = Some pos"
    and st': "dev_pos st' = upd (dev_pos st) pos" "dev_vel1 st' = upd (dev_vel2 st) vel2"
      "dev_vel2 st' = dev_vel1 st" "dev_sortedPos st' = dev_sortedPos st"
      "dev_sortedVel st' = dev_sortedVel st" "numObjects st' = numObjects st"
    by blast
  have lv: "length vel2 = length (mem (dev_vel2 st))"
    using v by (rule launch_inv)
      (simp_all add: kernUpdateVelNeighborSearchScattered_def updateVelNeighborSearch_length)
  from assms(1) have N: "0 \<le> ?N" and l0: "length (mem (dev_pos st)) = nat ?N"
    unfolding vec_sized_def by blast+
  have lp: "length pos = nat ?N \<and> list_all in_scene pos"
    using p N l0 by (rule kernUpdatePos_launch_in_scene)
  show ?thesis
    using assms(1) lv lp unfolding vec_sized_def st' by (simp add: upd_def)
qed



lemma stepSimulationCoherentGrid_SomeD:
  assumes "stepSimulationCoherentGrid sbk dt st = Some st'"
  shows "\<exists>starts ends indices sorted vel2 pos.
     launch (c_div (numObjects st + blockSize - 1) blockSize)
       (kernSortPosVel indices (numObjects st) (mem (dev_pos st)) (mem (dev_vel1 st)))
       (mem (dev_sortedPos st), mem (dev_sortedVel st)) = Some sorted \<and>
     launch (c_div (numObjects st + blockSize - 1) blockSize)
       (kernUpdateVelNeighborSearchCoherent (numObjects st) (gridSideCount st) (gridMinimum st)
          (gridInverseCellWidth st) (gridCellWidth st) starts ends (fst sorted) (snd sorted))
       (mem (dev_vel2 st)) = Some vel2 \<and>
     launch (c_div (numObjects st + blockSize - 1) blockSize)
       (kernUpdatePos (numObjects st) dt vel2) (fst sorted) = Some pos \<and>
     dev_pos st' = upd (dev_sortedPos st) pos \<and> dev_vel1 st' = upd (dev_vel2 st) vel2 \<and>
     dev_vel2 st' = dev_vel1 st \<and> dev_sortedPos st' = dev_pos st \<and>
     dev_sortedVel st' = upd (dev_sortedVel st) (snd sorted) \<and> numObjects st' = numObjects st"
  using assms unfolding stepSimulationCoherentGrid_def Let_def split_def
  apply (elim bindE)
  apply (rule exI)+
  apply (rule conjI, assumption)
  apply (rule conjI, assumption)
  apply (rule conjI, assumption)
  apply (thin_tac "launch _ _ _ = Some _")+
  apply (thin_tac "thrust_sort_by_key _ _ _ _ = Some _")
  apply (auto simp: upd_def)
  done



lemma stepSimulationCoherentGrid_inv:
  assumes "vec_sized st" "stepSimulationCoherentGrid sbk dt st = Some st'"
  shows "vec_sized st' \<and> numObjects st' = numObjects st \<and> list_all in_scene (mem (dev_pos st'))"
proof -
  let ?N = "numObjects st"
  let ?B = "c_div (?N + blockSize - 1) blockSize"
  from stepSimulationCoherentGrid_SomeD [OF assms(2)]
  obtain starts ends indices sorted vel2 pos where
    s: "launch ?B (kernSortPosVel indices ?N (mem (dev_pos st)) (mem (dev_vel1 st)))
          (mem (dev_sortedPos st), mem (dev_sortedVel st)) = Some sorted"
    and v: "launch ?B (kernUpdateVelNeighborSearchCoherent ?N (gridSideCount st) (gridMinimum st)
          (gridInverseCellWidth st) (gridCellWidth st) starts ends (fst sorted) (snd sorted))
          (mem (dev_vel2 st)) = Some vel2"
    and p: "launch ?B (kernUpdatePos ?N dt vel2) (fst sorted) = Some pos"
    and st': "dev_pos st' = upd (dev_sortedPos st) pos" "dev_vel1 st' = upd (dev_vel2 st) vel2"
      "dev_vel2 st' = dev_vel1 st" "dev_sortedPos st' = dev_pos st"
      "dev_sortedVel st' = upd (dev_sortedVel st) (snd sorted)" "numObjects st' = numObjects st"
    by blast
  have ls: "length (fst sorted) = length (mem (dev_sortedPos st)) \<and>
            length (snd sorted) = length (mem (dev_sortedVel st))"
    using s
  proof (rule launch_inv)
    fix k t t'
    assume "length (fst t) = length (mem (dev_sortedPos st)) \<and>
            length (snd t) = length (mem (dev_sortedVel st))"
      and "kernSortPosVel indices ?N (mem (dev_pos st)) (mem (dev_vel1 st)) k t = Some t'"
    then show "length (fst t') = length (mem (dev_sortedPos st)) \<and>
            length (snd t') = length (mem (dev_sortedVel st))"
      using kernSortPosVel_length [of indices ?N _ _ k "fst t" "snd t" "fst t'" "snd t'"]
      by simp
  qed simp
  have lv: "length vel2 = length (mem (dev_vel2 st))"
    using v by (rule launch_inv)
      (simp_all add: kernUpdateVelNeighborSearchCoherent_def updateVelNeighborSearch_length)
  from assms(1) have N: "0 \<le> ?N" and l1: "length (mem (dev_sortedPos st)) = nat ?N"
    unfolding vec_sized_def by blast+
  from ls l1 have l0: "length (fst sorted) = nat ?N" by (elim conjE) (rule trans)
  have lp: "length pos = nat ?N \<and> list_all in_scene pos"
    using p N l0 by (rule kernUpdatePos_launch_in_scene)
  show ?thesis
    using assms(1) lv lp ls unfolding vec_sized_def st' by (simp add: upd_def)
qed



lemma step_inv:
  assumes "vec_sized st" "step sbk strat dt st = Some st'"
  shows "vec_sized st' \<and> numObjects st' = numObjects st \<and> list_all in_scene (mem (dev_pos st'))"
proof (cases strat)
  case BruteForce
  then show ?thesis using assms stepSimulationNaive_inv [of st dt st'] by simp
next
  case ScatteredGrid
  then show ?thesis using assms stepSimulationScatteredGrid_inv [of st sbk dt st'] by simp
next
  case CoherentGrid
  then show ?thesis using assms stepSimulationCoherentGrid_inv [of st sbk dt st'] by simp
qed

lemma run_steps_inv:
  assumes "vec_sized st" "list_all in_scene (mem (dev_pos st))" "run_steps sbk prog st = Some st'"
  shows "vec_sized st' \<and> numObjects st' = numObjects st \<and> list_all in_scene (mem (dev_pos st'))"
  using assms
proof (induction prog arbitrary: st)
  case Nil
  then show ?case by simp
next
  case (Cons a prog)
  obtain strat dt where a: "a = (strat, dt)" by (cases a)
  from Cons.prems(3) a obtain st1 where s1: "step sbk strat dt st = Some st1"
    and r: "run_steps sbk prog st1 = Some st'"
    by (auto split: option.splits)
  from step_inv [OF Cons.prems(1) s1]
  have 1: "vec_sized st1" "numObjects st1 = numObjects st" "list_all in_scene (mem (dev_pos st1))"
    by blast+
  from Cons.IH [OF 1(1) 1(3) r] 1(2) show ?case by simp
qed



section \<open>The brute-force step and the scene bounds\<close>


lemma launch_map_result:
  assumes guard: "\<And>k t. N \<le> k \<Longrightarrow> kern k t = Some t"
    and body: "\<And>k t. 0 \<le> k \<Longrightarrow> k < N \<Longrightarrow> length t = length out \<Longrightarrow> t ! nat k = out ! nat k \<Longrightarrow>
                 kern k t = Some (t[nat k := f (nat k)])"
    and N: "0 \<le> N" "length out = nat N"
  shows "launch (c_div (N + blockSize - 1) blockSize) kern out = Some (map f [0 ..< nat N])"
proof -
  have "launch (c_div (N + blockSize - 1) blockSize) kern out = for_loop 0 N kern out"
    using guard N(1) by (rule launch_full)
  also have "\<dots> = Some (map f [0 ..< nat N] @ drop (nat N) out)"
    using body N by (intro for_loop_map_result) simp_all
  finally show ?thesis using N by simp
qed

lemma kernUpdatePos_launch:
  assumes "0 \<le> N" "length pos = nat N" "length vel = nat N"
  shows "launch (c_div (N + blockSize - 1) blockSize) (kernUpdatePos N dt vel) pos =
           Some (map (\<lambda>j. integrate (pos ! j) (vel ! j) dt) [0 ..< nat N])"
proof (rule launch_map_result)
  fix k t assume "N \<le> k"
  then show "kernUpdatePos N dt vel k t = Some t" by (simp add: kernUpdatePos_def)
next
  fix k t
  assume "0 \<le> k" "k < N" "length t = length pos" "t ! nat k = pos ! nat k"
  then show "kernUpdatePos N dt vel k t =
      Some (t[nat k := integrate (pos ! nat k) (vel ! nat k) dt])"
    using assms kernUpdatePos_thread [of k N t vel dt] by simp
qed (use assms in simp_all)

lemma kernUpdateVelocityBruteForce_launch:
  assumes "0 \<le> N" "length pos = nat N" "length vel1 = nat N" "length vel2 = nat N"
  shows "launch (c_div (N + blockSize - 1) blockSize)
           (kernUpdateVelocityBruteForce N pos vel1) vel2 =
         Some (map (brute_velocity pos vel1 N) [0 ..< nat N])"
proof (rule launch_map_result)
  fix k t assume "N \<le> k"
  then show "kernUpdateVelocityBruteForce N pos vel1 k t = Some t"
    by (simp add: kernUpdateVelocityBruteForce_def)
next
  fix k t
  assume k: "0 \<le> k" "k < N" and t: "length t = length vel2" "t ! nat k = vel2 ! nat k"
  have "computeVelocityChange 0 N k None pos vel1 =
          Some (rule_sum (pos ! nat k) pos vel1 (brute_candidates 0 N k))"
    using k assms by (intro computeVelocityChange_eq) simp_all
  moreover have "updateVelocities vel1 a k t = Some (t[nat k := clamp_speed (vel1 ! nat k + a)])"
    for a using k assms t by (intro updateVelocities_thread) simp_all
  ultimately show "kernUpdateVelocityBruteForce N pos vel1 k t =
      Some (t[nat k := brute_velocity pos vel1 N (nat k)])"
    using k by (simp add: kernUpdateVelocityBruteForce_def brute_velocity_def)
qed (use assms in simp_all)

lemma stepSimulationNaive_eq:
  assumes "vec_sized st"
  shows "stepSimulationNaive dt st = Some (naive_result dt st)"
proof -
  let ?N = "numObjects st"
  from assms have N: "0 \<le> ?N" and l: "length (mem (dev_pos st)) = nat ?N"
    "length (mem (dev_vel1 st)) = nat ?N" "length (mem (dev_vel2 st)) = nat ?N"
    unfolding vec_sized_def by blast+
  let ?vel2 = "map (brute_velocity (mem (dev_pos st)) (mem (dev_vel1 st)) ?N) [0 ..< nat ?N]"
  have v: "launch (c_div (?N + blockSize - 1) blockSize)
             (kernUpdateVelocityBruteForce ?N (mem (dev_pos st)) (mem (dev_vel1 st)))
             (mem (dev_vel2 st)) = Some ?vel2"
    using N l by (rule kernUpdateVelocityBruteForce_launch)
  have p: "launch (c_div (?N + blockSize - 1) blockSize) (kernUpdatePos ?N dt ?vel2)
             (mem (dev_pos st)) =
           Some (map (\<lambda>j. integrate (mem (dev_pos st) ! j) (?vel2 ! j) dt) [0 ..< nat ?N])"
    using N l(1) by (rule kernUpdatePos_launch) simp
  show ?thesis
    unfolding stepSimulationNaive_def naive_result_def Let_def v by (simp add: p)
qed


lemma initSimulation_sized:
  assumes "initSimulation ud jv ji (int n) = Some st"
  shows "sized st \<and> numObjects st = int n \<and> mem (dev_pos st) = init_positions ud n"
  using assms unfolding initSimulation_eq
  by (auto simp: sized_def vec_sized_def init_positions_def)

lemma initSimulation_SomeD:
  assumes "initSimulation ud jv ji N = Some st"
  shows "0 \<le> N"
  using assms by (auto simp: initSimulation_def cudaMalloc_def Let_def split: if_splits)

lemma init_positions_in_scene:
  assumes "\<forall>seed k. - 1 \<le> ud seed k \<and> ud seed k \<le> 1"
  shows "list_all in_scene (init_positions ud n)"
proof -
  have "- scene_scale \<le> scene_scale * ud seed k \<and> scene_scale * ud seed k \<le> scene_scale"
    for seed k
    using assms [rule_format, of seed k] by (simp add: scene_scale_def)
  then show ?thesis
    by (simp add: init_positions_def list_all_iff in_scene_def generateRandomVec3_def Let_def)
qed

lemma run_steps_brute_total:
  assumes "vec_sized st" "list_all (\<lambda>sd. fst sd = BruteForce) prog"
  shows "\<exists>st'. run_steps sbk prog st = Some st'"
  using assms
proof (induction prog arbitrary: st)
  case Nil
  then show ?case by simp
next
  case (Cons a prog)
  obtain strat dt where a: "a = (strat, dt)" by (cases a)
  with Cons.prems(2) have b: "strat = BruteForce" by simp
  have s: "step sbk strat dt st = Some (naive_result dt st)"
    using b stepSimulationNaive_eq [OF Cons.prems(1)] by simp
  have "vec_sized (naive_result dt st)"
    using step_inv [OF Cons.prems(1) s] by simp
  then have "\<exists>st'. run_steps sbk prog (naive_result dt st) = Some st'"
    using Cons.prems(2) by (intro Cons.IH) simp_all
  then show ?case using a s by simp
qed



section \<open>One step on two agents\<close>


lemma c_int_numeral [simp]:
  "c_int (numeral n) = numeral n" "c_int (- numeral n) = - numeral n" "c_int 0 = 0" "c_int 1 = 1"
  "c_int (- 1) = - 1"
  by (simp_all add: c_int_def ceiling_def)

lemma upt_0_2: "[0 ..< 2] = [0, Suc 0]"
  by (simp add: upt_rec)

lemma init_two_boids:
  "initSimulation two_boids_draw (\<lambda>_ _. Vec3 0 0 0) (\<lambda>_ _. - 1) 2 = Some two_boids"
proof -
  have "initSimulation two_boids_draw (\<lambda>_ _. Vec3 0 0 0) (\<lambda>_ _. - 1) (int 2) = Some two_boids"
    unfolding initSimulation_eq two_boids_def
    by (simp add: init_positions_def generateRandomVec3_def two_boids_draw_def upt_0_2
        map_replicate_const scene_scale_def hash_def Let_def del: upt_rec_numeral)
  then show ?thesis by simp
qed

lemma vec_sized_two_boids: "sized two_boids"
  by (simp add: sized_def vec_sized_def two_boids_def)

lemma fullBlocks_2: "c_div (2 + blockSize - 1) blockSize = 1"
  by (simp add: c_div_def blockSize_def)

lemma two_boids_indices:
  "launch 1 (kernComputeIndices 2 22 (Vec3 (- 110) (- 110) (- 110)) (1 / 10)
           [Vec3 1 1 1, Vec3 2 1 1]) ([- 1, - 1], [- 1, - 1]) = Some ([0, 1], [5577, 5577])"
proof -
  have "launch 1 (kernComputeIndices 2 22 (Vec3 (- 110) (- 110) (- 110)) (1 / 10)
           [Vec3 1 1 1, Vec3 2 1 1]) ([- 1, - 1], [- 1, - 1]) =
        for_loop 0 2 (kernComputeIndices 2 22 (Vec3 (- 110) (- 110) (- 110)) (1 / 10)
           [Vec3 1 1 1, Vec3 2 1 1]) ([- 1, - 1], [- 1, - 1])"
    by (rule launch_guarded) (auto simp: kernComputeIndices_def blockSize_def)
  also have "\<dots> = Some ([0, 1], [5577, 5577])"
    by (simp add: for_loop.simps kernComputeIndices_def posToGridIndex_def posToGrid_eq
        cell_coord_def gridIndex3Dto1D_def rd_def wr_def)
  finally show ?thesis .
qed

lemma two_boids_sort:
  "thrust_sort_by_key insort_by_key 2 [5577, 5577] [0, 1] = Some ([5577, 5577], [0, 1])"
  by (simp add: thrust_sort_by_key_def insort_by_key_def)



lemma two_boids_reset:
  "launch (c_int ((of_int 22 ^ 3 + of_int blockSize - 1) / of_int blockSize))
     (kernResetIntBuffer 2 (- 1)) (replicate 10648 (- 1)) = Some (replicate 10648 (- 1))"
proof -
  have "launch 84 (kernResetIntBuffer 2 (- 1)) (replicate 10648 (- 1)) =
          Some (replicate (nat 2) (- 1) @ drop (nat 2) (replicate 10648 (- 1)))"
    by (rule kernResetIntBuffer_launch) (simp_all add: blockSize_def)
  also have "replicate (nat 2) (- 1) @ drop (nat 2) (replicate 10648 (- 1)) =
             replicate 10648 (- 1 :: int)"
    by (simp add: replicate_add [symmetric])
  finally show ?thesis unfolding fullGrids_22 .
qed

lemma two_boids_cells:
  "launch 1 (kernIdentifyCellStartEnd 2 [5577, 5577])
     (replicate 10648 (- 1), replicate 10648 (- 1)) =
   Some ((replicate 10648 (- 1))[5577 := 0], (replicate 10648 (- 1))[5577 := 1])"
proof -
  have "launch 1 (kernIdentifyCellStartEnd 2 [5577, 5577])
     (replicate 10648 (- 1), replicate 10648 (- 1)) =
     for_loop 0 2 (kernIdentifyCellStartEnd 2 [5577, 5577])
     (replicate 10648 (- 1), replicate 10648 (- 1))"
    by (rule launch_guarded) (auto simp: kernIdentifyCellStartEnd_def blockSize_def)
  also have "\<dots> = Some ((replicate 10648 (- 1))[5577 := 0], (replicate 10648 (- 1))[5577 := 1])"
    by (simp add: for_loop.simps kernIdentifyCellStartEnd_def rd_def wr_def)
  finally show ?thesis .
qed



lemma bind_weak_cong: "m = m' \<Longrightarrow> Option.bind m f = Option.bind m' f"
  by simp

lemma for_loop_weak_cong:
  "i = i' \<Longrightarrow> n = n' \<Longrightarrow> s = s' \<Longrightarrow> for_loop i n body s = for_loop i' n' body s'"
  by simp

lemma Let_weak_cong: "v = v' \<Longrightarrow> Let v f = Let v' f"
  by simp

lemmas vec_ev = plus_vec3_def minus_vec3_def zero_vec3_def uminus_vec3_def smul_def sdiv_def
  rule1Distance_def rule2Distance_def rule3Distance_def rule1Scale_def rule2Scale_def
  rule3Scale_def maxSpeed_def

lemmas search_ev = updateVelNeighborSearch_def Let_def posToGrid_eq cell_coord_def
  for_loop.simps gridIndex3Dto1D_def dim_def maxNumGridSearch_def gridOOB_def rd_def wr_def
  computeVelocityChangeInGrids_def rules_body_def rules_result_def accum0_def
  updateVelocities_thread clamp_speed_def

lemma fullBlocks_2': "c_div (1 + blockSize) blockSize = 1"
  by (simp add: c_div_def blockSize_def)

lemma two_boids_scattered_0:
  "updateVelNeighborSearch 2 22 (Vec3 (- 110) (- 110) (- 110)) (1 / 10) 10
     ((replicate 10648 (- 1))[5577 := 0]) ((replicate 10648 (- 1))[5577 := 1]) (Some [0, 1])
     [Vec3 1 1 1, Vec3 2 1 1] [Vec3 0 0 0, Vec3 0 0 0] 0 [a, b] = Some [Vec3 0 0 0, b]"
  by (simp add: search_ev vec_ev cong: bind_weak_cong for_loop_weak_cong Let_weak_cong)


lemma two_boids_scattered_1:
  "updateVelNeighborSearch 2 22 (Vec3 (- 110) (- 110) (- 110)) (1 / 10) 10
     ((replicate 10648 (- 1))[5577 := 0]) ((replicate 10648 (- 1))[5577 := 1]) (Some [0, 1])
     [Vec3 1 1 1, Vec3 2 1 1] [Vec3 0 0 0, Vec3 0 0 0] 1 [a, b] = Some [a, Vec3 (9 / 100) 0 0]"
  by (simp add: search_ev vec_ev cong: bind_weak_cong for_loop_weak_cong Let_weak_cong)

lemma two_boids_scattered_velocities:
  "launch 1 (kernUpdateVelNeighborSearchScattered 2 22 (Vec3 (- 110) (- 110) (- 110)) (1 / 10) 10
     ((replicate 10648 (- 1))[5577 := 0]) ((replicate 10648 (- 1))[5577 := 1]) [0, 1]
     [Vec3 1 1 1, Vec3 2 1 1] [Vec3 0 0 0, Vec3 0 0 0]) [Vec3 0 0 0, Vec3 0 0 0] =
   Some [Vec3 0 0 0, Vec3 (9 / 100) 0 0]"
proof -
  let ?k = "kernUpdateVelNeighborSearchScattered 2 22 (Vec3 (- 110) (- 110) (- 110)) (1 / 10) 10
     ((replicate 10648 (- 1))[5577 := 0]) ((replicate 10648 (- 1))[5577 := 1]) [0, 1]
     [Vec3 1 1 1, Vec3 2 1 1] [Vec3 0 0 0, Vec3 0 0 0]"
  have "launch 1 ?k [Vec3 0 0 0, Vec3 0 0 0] = for_loop 0 2 ?k [Vec3 0 0 0, Vec3 0 0 0]"
    by (rule launch_guarded)
      (auto simp: kernUpdateVelNeighborSearchScattered_def updateVelNeighborSearch_def
        blockSize_def)
  also have "\<dots> = Some [Vec3 0 0 0, Vec3 (9 / 100) 0 0]"
    by (simp add: for_loop.simps kernUpdateVelNeighborSearchScattered_def
        two_boids_scattered_0 two_boids_scattered_1 cong: for_loop_weak_cong)
  finally show ?thesis .
qed

lemma fullGrids_22': "c_int ((10647 + real_of_int blockSize) / real_of_int blockSize) = 84"
  using fullGrids_22 by simp

lemma two_boids_reset':
  "launch 84 (kernResetIntBuffer 2 (- 1)) (replicate 10648 (- 1)) = Some (replicate 10648 (- 1))"
  using two_boids_reset unfolding fullGrids_22 .

lemma two_boids_scattered:
  "\<exists>st'. stepSimulationScatteredGrid insort_by_key dt two_boids = Some st' \<and>
         mem (dev_vel1 st') = [Vec3 0 0 0, Vec3 (9 / 100) 0 0] \<and>
         mem (dev_pos st') = [integrate (Vec3 1 1 1) (Vec3 0 0 0) dt,
                              integrate (Vec3 2 1 1) (Vec3 (9 / 100) 0 0) dt] \<and>
         mem (dev_particleArrayIndices st') = [0, 1]"
proof -
  have p: "launch 1 (kernUpdatePos 2 dt [Vec3 0 0 0, Vec3 (9 / 100) 0 0])
             [Vec3 1 1 1, Vec3 2 1 1] =
           Some [integrate (Vec3 1 1 1) (Vec3 0 0 0) dt,
                 integrate (Vec3 2 1 1) (Vec3 (9 / 100) 0 0) dt]"
    using kernUpdatePos_launch [of 2 "[Vec3 1 1 1, Vec3 2 1 1]"
        "[Vec3 0 0 0, Vec3 (9 / 100) 0 0]" dt]
    by (simp add: fullBlocks_2' upt_0_2 del: upt_rec_numeral)
  show ?thesis
    unfolding stepSimulationScatteredGrid_def two_boids_def
    by (simp add: Let_def fullBlocks_2 fullBlocks_2' fullGrids_22' two_boids_indices two_boids_sort
        two_boids_reset' two_boids_cells
        two_boids_scattered_velocities p upd_def
        cong: bind_weak_cong Let_weak_cong)
qed



lemma two_boids_sorted_copy:
  "launch 1 (kernSortPosVel [0, 1] 2 [Vec3 1 1 1, Vec3 2 1 1] [Vec3 0 0 0, Vec3 0 0 0])
     ([Vec3 0 0 0, Vec3 0 0 0], [Vec3 0 0 0, Vec3 0 0 0]) =
   Some ([Vec3 1 1 1, Vec3 2 1 1], [Vec3 0 0 0, Vec3 0 0 0])"
proof -
  let ?k = "kernSortPosVel [0, 1] 2 [Vec3 1 1 1, Vec3 2 1 1] [Vec3 0 0 0, Vec3 0 0 0]"
  have "launch 1 ?k ([Vec3 0 0 0, Vec3 0 0 0], [Vec3 0 0 0, Vec3 0 0 0]) =
        for_loop 0 2 ?k ([Vec3 0 0 0, Vec3 0 0 0], [Vec3 0 0 0, Vec3 0 0 0])"
    by (rule launch_guarded) (auto simp: kernSortPosVel_def blockSize_def)
  also have "\<dots> = Some ([Vec3 1 1 1, Vec3 2 1 1], [Vec3 0 0 0, Vec3 0 0 0])"
    by (simp add: for_loop.simps kernSortPosVel_def rd_def wr_def
        cong: bind_weak_cong for_loop_weak_cong)
  finally show ?thesis .
qed

lemma two_boids_coherent_0:
  "updateVelNeighborSearch 2 22 (Vec3 (- 110) (- 110) (- 110)) (1 / 10) 10
     ((replicate 10648 (- 1))[5577 := 0]) ((replicate 10648 (- 1))[5577 := 1]) None
     [Vec3 1 1 1, Vec3 2 1 1] [Vec3 0 0 0, Vec3 0 0 0] 0 [a, b] = Some [Vec3 0 0 0, b]"
  by (simp add: search_ev vec_ev cong: bind_weak_cong for_loop_weak_cong Let_weak_cong)

lemma two_boids_coherent_1:
  "updateVelNeighborSearch 2 22 (Vec3 (- 110) (- 110) (- 110)) (1 / 10) 10
     ((replicate 10648 (- 1))[5577 := 0]) ((replicate 10648 (- 1))[5577 := 1]) None
     [Vec3 1 1 1, Vec3 2 1 1] [Vec3 0 0 0, Vec3 0 0 0] 1 [a, b] = Some [a, Vec3 (9 / 100) 0 0]"
  by (simp add: search_ev vec_ev cong: bind_weak_cong for_loop_weak_cong Let_weak_cong)

lemma two_boids_coherent_velocities:
  "launch 1 (kernUpdateVelNeighborSearchCoherent 2 22 (Vec3 (- 110) (- 110) (- 110)) (1 / 10) 10
     ((replicate 10648 (- 1))[5577 := 0]) ((replicate 10648 (- 1))[5577 := 1])
     [Vec3 1 1 1, Vec3 2 1 1] [Vec3 0 0 0, Vec3 0 0 0]) [Vec3 0 0 0, Vec3 0 0 0] =
   Some [Vec3 0 0 0, Vec3 (9 / 100) 0 0]"
proof -
  let ?k = "kernUpdateVelNeighborSearchCoherent 2 22 (Vec3 (- 110) (- 110) (- 110)) (1 / 10) 10
     ((replicate 10648 (- 1))[5577 := 0]) ((replicate 10648 (- 1))[5577 := 1])
     [Vec3 1 1 1, Vec3 2 1 1] [Vec3 0 0 0, Vec3 0 0 0]"
  have "launch 1 ?k [Vec3 0 0 0, Vec3 0 0 0] = for_loop 0 2 ?k [Vec3 0 0 0, Vec3 0 0 0]"
    by (rule launch_guarded)
      (auto simp: kernUpdateVelNeighborSearchCoherent_def updateVelNeighborSearch_def
        blockSize_def)
  also have "\<dots> = Some [Vec3 0 0 0, Vec3 (9 / 100) 0 0]"
    by (simp add: for_loop.simps kernUpdateVelNeighborSearchCoherent_def
        two_boids_coherent_0 two_boids_coherent_1 cong: for_loop_weak_cong)
  finally show ?thesis .
qed

lemma two_boids_positions:
  "launch 1 (kernUpdatePos 2 dt [Vec3 0 0 0, Vec3 (9 / 100) 0 0]) [Vec3 1 1 1, Vec3 2 1 1] =
     Some [integrate (Vec3 1 1 1) (Vec3 0 0 0) dt,
           integrate (Vec3 2 1 1) (Vec3 (9 / 100) 0 0) dt]"
  using kernUpdatePos_launch [of 2 "[Vec3 1 1 1, Vec3 2 1 1]"
      "[Vec3 0 0 0, Vec3 (9 / 100) 0 0]" dt]
  by (simp add: fullBlocks_2' upt_0_2 del: upt_rec_numeral)

lemma two_boids_coherent:
  "\<exists>st'. stepSimulationCoherentGrid insort_by_key dt two_boids = Some st' \<and>
         mem (dev_vel1 st') = [Vec3 0 0 0, Vec3 (9 / 100) 0 0] \<and>
         mem (dev_pos st') = [integrate (Vec3 1 1 1) (Vec3 0 0 0) dt,
                              integrate (Vec3 2 1 1) (Vec3 (9 / 100) 0 0) dt] \<and>
         mem (dev_particleArrayIndices st') = [0, 1]"
  unfolding stepSimulationCoherentGrid_def two_boids_def
  by (simp add: Let_def fullBlocks_2 fullBlocks_2' fullGrids_22' two_boids_indices two_boids_sort
      two_boids_reset' two_boids_cells two_boids_sorted_copy two_boids_coherent_velocities
      two_boids_positions upd_def cong: bind_weak_cong Let_weak_cong)

lemma two_boids_brute:
  "brute_velocity [Vec3 1 1 1, Vec3 2 1 1] [Vec3 0 0 0, Vec3 0 0 0] 2 0 = Vec3 (- 9 / 100) 0 0"
  "brute_velocity [Vec3 1 1 1, Vec3 2 1 1] [Vec3 0 0 0, Vec3 0 0 0] 2 (Suc 0) = Vec3 (9 / 100) 0 0"
proof -
  have b: "brute_candidates 0 2 0 = [1]" "brute_candidates 0 2 1 = [0]"
    by (simp_all add: brute_candidates_def upto_rec1)
  show "brute_velocity [Vec3 1 1 1, Vec3 2 1 1] [Vec3 0 0 0, Vec3 0 0 0] 2 0 = Vec3 (- 9 / 100) 0 0"
    by (simp add: brute_velocity_def b rule_sum_def cohesion_term_def separation_term_def
        alignment_term_def in_radius_def clamp_speed_def vec_ev Let_def)
  show "brute_velocity [Vec3 1 1 1, Vec3 2 1 1] [Vec3 0 0 0, Vec3 0 0 0] 2 (Suc 0) = Vec3 (9 / 100) 0 0"
    by (simp add: brute_velocity_def b rule_sum_def cohesion_term_def separation_term_def
        alignment_term_def in_radius_def clamp_speed_def vec_ev Let_def)
qed

lemma two_boids_naive:
  "\<exists>st'. stepSimulationNaive dt two_boids = Some st' \<and>
         mem (dev_vel1 st') = [Vec3 (- 9 / 100) 0 0, Vec3 (9 / 100) 0 0]"
proof -
  have "vec_sized two_boids" using vec_sized_two_boids by (simp add: sized_def)
  then have "stepSimulationNaive dt two_boids = Some (naive_result dt two_boids)"
    by (rule stepSimulationNaive_eq)
  moreover have "mem (dev_vel1 (naive_result dt two_boids)) =
      [Vec3 (- 9 / 100) 0 0, Vec3 (9 / 100) 0 0]"
    by (simp add: naive_result_def two_boids_def Let_def upd_def upt_0_2 two_boids_brute
        del: upt_rec_numeral)
  ultimately show ?thesis by simp
qed

text \<open>
  Claim C2 asks that a brute-force step and a grid step from the same state give every
  agent the same new velocity. From the state \<open>two_boids\<close>, which \<^verbatim>\<open>initSimulation\<close>
  produces, the brute-force step gives agent 0 the velocity \<open>(- 9/100, 0, 0)\<close> and both
  grid steps give it zero: the only occupied cell gets the range \<open>[0, 1)\<close>, so the agent
  in the last sorted slot is no one's neighbour.
\<close>

theorem strategies_disagree:
  "\<exists>sn sg sc.
     initSimulation two_boids_draw (\<lambda>_ _. Vec3 0 0 0) (\<lambda>_ _. - 1) 2 = Some two_boids \<and>
     stepSimulationNaive dt two_boids = Some sn \<and>
     stepSimulationScatteredGrid insort_by_key dt two_boids = Some sg \<and>
     stepSimulationCoherentGrid insort_by_key dt two_boids = Some sc \<and>
     mem (dev_vel1 sn) = [Vec3 (- 9 / 100) 0 0, Vec3 (9 / 100) 0 0] \<and>
     mem (dev_vel1 sg) = [Vec3 0 0 0, Vec3 (9 / 100) 0 0] \<and>
     mem (dev_vel1 sc) = [Vec3 0 0 0, Vec3 (9 / 100) 0 0]"
  using init_two_boids two_boids_naive [of dt] two_boids_scattered [of dt]
    two_boids_coherent [of dt]
  by blast


section \<open>A step on cell tables that hold old values\<close>

lemma stale_init:
  "initSimulation two_boids_draw (\<lambda>_ _. Vec3 0 0 0) (\<lambda>_ _. 7) 2 =
     Some (two_boids\<lparr>dev_particleArrayIndices := DevPtr 3 [7, 7],
                     dev_particleGridIndices := DevPtr 4 [7, 7],
                     dev_gridCellStartIndices := DevPtr 5 (replicate 10648 7),
                     dev_gridCellEndIndices := DevPtr 6 (replicate 10648 7)\<rparr>)"
proof -
  have "initSimulation two_boids_draw (\<lambda>_ _. Vec3 0 0 0) (\<lambda>_ _. 7) (int 2) =
     Some (two_boids\<lparr>dev_particleArrayIndices := DevPtr 3 [7, 7],
                     dev_particleGridIndices := DevPtr 4 [7, 7],
                     dev_gridCellStartIndices := DevPtr 5 (replicate 10648 7),
                     dev_gridCellEndIndices := DevPtr 6 (replicate 10648 7)\<rparr>)"
    unfolding initSimulation_eq two_boids_def
    by (simp add: init_positions_def generateRandomVec3_def two_boids_draw_def upt_0_2
        map_replicate_const scene_scale_def hash_def Let_def del: upt_rec_numeral)
  then show ?thesis by simp
qed

lemma stale_indices:
  "launch 1 (kernComputeIndices 2 22 (Vec3 (- 110) (- 110) (- 110)) (1 / 10)
           [Vec3 1 1 1, Vec3 2 1 1]) ([7, 7], [7, 7]) = Some ([0, 1], [5577, 5577])"
proof -
  have "launch 1 (kernComputeIndices 2 22 (Vec3 (- 110) (- 110) (- 110)) (1 / 10)
           [Vec3 1 1 1, Vec3 2 1 1]) ([7, 7], [7, 7]) =
        for_loop 0 2 (kernComputeIndices 2 22 (Vec3 (- 110) (- 110) (- 110)) (1 / 10)
           [Vec3 1 1 1, Vec3 2 1 1]) ([7, 7], [7, 7])"
    by (rule launch_guarded) (auto simp: kernComputeIndices_def blockSize_def)
  also have "\<dots> = Some ([0, 1], [5577, 5577])"
    by (simp add: for_loop.simps kernComputeIndices_def posToGridIndex_def posToGrid_eq
        cell_coord_def gridIndex3Dto1D_def rd_def wr_def)
  finally show ?thesis .
qed

lemma stale_reset:
  "launch 84 (kernResetIntBuffer 2 (- 1)) (replicate 10648 7) = Some stale_table"
proof -
  have "launch 84 (kernResetIntBuffer 2 (- 1)) (replicate 10648 7) =
          Some (replicate (nat 2) (- 1) @ drop (nat 2) (replicate 10648 7))"
    by (rule kernResetIntBuffer_launch) (simp_all add: blockSize_def)
  then show ?thesis
    by (simp add: numeral_2_eq_2 stale_table_def)
qed

lemma stale_table_length [simp]: "length stale_table = 10648"
  by (simp add: stale_table_def)

lemma stale_table_nth [simp]: "2 \<le> j \<Longrightarrow> j < 10648 \<Longrightarrow> stale_table ! j = 7"
  by (simp add: stale_table_def nth_append)

lemma stale_cells:
  "launch 1 (kernIdentifyCellStartEnd 2 [5577, 5577]) (stale_table, stale_table) =
   Some (stale_table[5577 := 0], stale_table[5577 := 1])"
proof -
  have "launch 1 (kernIdentifyCellStartEnd 2 [5577, 5577]) (stale_table, stale_table) =
     for_loop 0 2 (kernIdentifyCellStartEnd 2 [5577, 5577]) (stale_table, stale_table)"
    by (rule launch_guarded) (auto simp: kernIdentifyCellStartEnd_def blockSize_def)
  also have "\<dots> = Some (stale_table[5577 := 0], stale_table[5577 := 1])"
    by (simp add: for_loop.simps kernIdentifyCellStartEnd_def rd_def wr_def)
  finally show ?thesis .
qed

lemma stale_scattered_0:
  "updateVelNeighborSearch 2 22 (Vec3 (- 110) (- 110) (- 110)) (1 / 10) 10
     (stale_table[5577 := 0]) (stale_table[5577 := 1]) (Some [0, 1])
     [Vec3 1 1 1, Vec3 2 1 1] [Vec3 0 0 0, Vec3 0 0 0] 0 [a, b] = Some [Vec3 0 0 0, b]"
  by (simp add: search_ev vec_ev cong: bind_weak_cong for_loop_weak_cong Let_weak_cong)

lemma stale_scattered_1:
  "updateVelNeighborSearch 2 22 (Vec3 (- 110) (- 110) (- 110)) (1 / 10) 10
     (stale_table[5577 := 0]) (stale_table[5577 := 1]) (Some [0, 1])
     [Vec3 1 1 1, Vec3 2 1 1] [Vec3 0 0 0, Vec3 0 0 0] 1 [a, b] = Some [a, Vec3 (9 / 100) 0 0]"
  by (simp add: search_ev vec_ev cong: bind_weak_cong for_loop_weak_cong Let_weak_cong)

lemma stale_scattered_velocities:
  "launch 1 (kernUpdateVelNeighborSearchScattered 2 22 (Vec3 (- 110) (- 110) (- 110)) (1 / 10) 10
     (stale_table[5577 := 0]) (stale_table[5577 := 1]) [0, 1]
     [Vec3 1 1 1, Vec3 2 1 1] [Vec3 0 0 0, Vec3 0 0 0]) [Vec3 0 0 0, Vec3 0 0 0] =
   Some [Vec3 0 0 0, Vec3 (9 / 100) 0 0]"
proof -
  let ?k = "kernUpdateVelNeighborSearchScattered 2 22 (Vec3 (- 110) (- 110) (- 110)) (1 / 10) 10
     (stale_table[5577 := 0]) (stale_table[5577 := 1]) [0, 1]
     [Vec3 1 1 1, Vec3 2 1 1] [Vec3 0 0 0, Vec3 0 0 0]"
  have "launch 1 ?k [Vec3 0 0 0, Vec3 0 0 0] = for_loop 0 2 ?k [Vec3 0 0 0, Vec3 0 0 0]"
    by (rule launch_guarded)
      (auto simp: kernUpdateVelNeighborSearchScattered_def updateVelNeighborSearch_def
        blockSize_def)
  also have "\<dots> = Some [Vec3 0 0 0, Vec3 (9 / 100) 0 0]"
    by (simp add: for_loop.simps kernUpdateVelNeighborSearchScattered_def
        stale_scattered_0 stale_scattered_1 cong: for_loop_weak_cong)
  finally show ?thesis .
qed

lemma stale_coherent_0:
  "updateVelNeighborSearch 2 22 (Vec3 (- 110) (- 110) (- 110)) (1 / 10) 10
     (stale_table[5577 := 0]) (stale_table[5577 := 1]) None
     [Vec3 1 1 1, Vec3 2 1 1] [Vec3 0 0 0, Vec3 0 0 0] 0 [a, b] = Some [Vec3 0 0 0, b]"
  by (simp add: search_ev vec_ev cong: bind_weak_cong for_loop_weak_cong Let_weak_cong)

lemma stale_coherent_1:
  "updateVelNeighborSearch 2 22 (Vec3 (- 110) (- 110) (- 110)) (1 / 10) 10
     (stale_table[5577 := 0]) (stale_table[5577 := 1]) None
     [Vec3 1 1 1, Vec3 2 1 1] [Vec3 0 0 0, Vec3 0 0 0] 1 [a, b] = Some [a, Vec3 (9 / 100) 0 0]"
  by (simp add: search_ev vec_ev cong: bind_weak_cong for_loop_weak_cong Let_weak_cong)

lemma stale_coherent_velocities:
  "launch 1 (kernUpdateVelNeighborSearchCoherent 2 22 (Vec3 (- 110) (- 110) (- 110)) (1 / 10) 10
     (stale_table[5577 := 0]) (stale_table[5577 := 1])
     [Vec3 1 1 1, Vec3 2 1 1] [Vec3 0 0 0, Vec3 0 0 0]) [Vec3 0 0 0, Vec3 0 0 0] =
   Some [Vec3 0 0 0, Vec3 (9 / 100) 0 0]"
proof -
  let ?k = "kernUpdateVelNeighborSearchCoherent 2 22 (Vec3 (- 110) (- 110) (- 110)) (1 / 10) 10
     (stale_table[5577 := 0]) (stale_table[5577 := 1])
     [Vec3 1 1 1, Vec3 2 1 1] [Vec3 0 0 0, Vec3 0 0 0]"
  have "launch 1 ?k [Vec3 0 0 0, Vec3 0 0 0] = for_loop 0 2 ?k [Vec3 0 0 0, Vec3 0 0 0]"
    by (rule launch_guarded)
      (auto simp: kernUpdateVelNeighborSearchCoherent_def updateVelNeighborSearch_def
        blockSize_def)
  also have "\<dots> = Some [Vec3 0 0 0, Vec3 (9 / 100) 0 0]"
    by (simp add: for_loop.simps kernUpdateVelNeighborSearchCoherent_def
        stale_coherent_0 stale_coherent_1 cong: for_loop_weak_cong)
  finally show ?thesis .
qed

lemma stale_scattered:
  "\<exists>st'. stepSimulationScatteredGrid insort_by_key dt
           (two_boids\<lparr>dev_particleArrayIndices := DevPtr 3 [7, 7],
                      dev_particleGridIndices := DevPtr 4 [7, 7],
                      dev_gridCellStartIndices := DevPtr 5 (replicate 10648 7),
                      dev_gridCellEndIndices := DevPtr 6 (replicate 10648 7)\<rparr>) = Some st' \<and>
         mem (dev_gridCellStartIndices st') = stale_table[5577 := 0] \<and>
         mem (dev_gridCellEndIndices st') = stale_table[5577 := 1] \<and>
         mem (dev_particleGridIndices st') = [5577, 5577]"
  unfolding stepSimulationScatteredGrid_def two_boids_def
  by (simp add: Let_def fullBlocks_2 fullBlocks_2' fullGrids_22' stale_indices two_boids_sort
      stale_reset stale_cells stale_scattered_velocities two_boids_positions upd_def
      cong: bind_weak_cong Let_weak_cong)

lemma stale_coherent:
  "\<exists>st'. stepSimulationCoherentGrid insort_by_key dt
           (two_boids\<lparr>dev_particleArrayIndices := DevPtr 3 [7, 7],
                      dev_particleGridIndices := DevPtr 4 [7, 7],
                      dev_gridCellStartIndices := DevPtr 5 (replicate 10648 7),
                      dev_gridCellEndIndices := DevPtr 6 (replicate 10648 7)\<rparr>) = Some st' \<and>
         mem (dev_gridCellStartIndices st') = stale_table[5577 := 0] \<and>
         mem (dev_gridCellEndIndices st') = stale_table[5577 := 1] \<and>
         mem (dev_particleGridIndices st') = [5577, 5577]"
  unfolding stepSimulationCoherentGrid_def two_boids_def
  by (simp add: Let_def fullBlocks_2 fullBlocks_2' fullGrids_22' stale_indices two_boids_sort
      stale_reset stale_cells two_boids_sorted_copy stale_coherent_velocities
      two_boids_positions upd_def cong: bind_weak_cong Let_weak_cong)

text \<open>
  Claim C3 asks that every grid step reset all \<open>gridCellCount\<close> entries of both tables
  to \<open>- 1\<close>, so that a cell without agents carries \<open>- 1\<close> after the step has derived
  the ranges. The steps launch \<^verbatim>\<open>kernResetIntBuffer\<close> over enough threads for every
  cell, but pass \<open>numObjects\<close> as the bound. With two agents, both in cell 5577, and
  fresh device memory holding 7, the launch resets the entries 0 and 1 only, and after a
  scattered or a coherent step every cell from 2 on other than 5577 still holds 7 in
  both tables, although it has no agent.
\<close>

theorem reset_leaves_stale:
  "\<exists>st sg sc.
     initSimulation two_boids_draw (\<lambda>_ _. Vec3 0 0 0) (\<lambda>_ _. 7) 2 = Some st \<and>
     mem (dev_gridCellStartIndices st) = replicate 10648 7 \<and>
     mem (dev_gridCellEndIndices st) = replicate 10648 7 \<and>
     launch (c_int ((of_int (gridSideCount st) ^ 3 + of_int blockSize - 1) / of_int blockSize))
       (kernResetIntBuffer (numObjects st) (- 1)) (mem (dev_gridCellStartIndices st)) =
       Some ([- 1, - 1] @ replicate 10646 7) \<and>
     stepSimulationScatteredGrid insort_by_key dt st = Some sg \<and>
     stepSimulationCoherentGrid insort_by_key dt st = Some sc \<and>
     mem (dev_particleGridIndices sg) = [5577, 5577] \<and>
     mem (dev_particleGridIndices sc) = [5577, 5577] \<and>
     mem (dev_gridCellStartIndices sg) = ([- 1, - 1] @ replicate 10646 7)[5577 := 0] \<and>
     mem (dev_gridCellEndIndices sg) = ([- 1, - 1] @ replicate 10646 7)[5577 := 1] \<and>
     mem (dev_gridCellStartIndices sc) = ([- 1, - 1] @ replicate 10646 7)[5577 := 0] \<and>
     mem (dev_gridCellEndIndices sc) = ([- 1, - 1] @ replicate 10646 7)[5577 := 1] \<and>
     mem (dev_gridCellStartIndices sg) ! 2 = 7 \<and> mem (dev_gridCellEndIndices sg) ! 2 = 7 \<and>
     mem (dev_gridCellStartIndices sc) ! 2 = 7 \<and> mem (dev_gridCellEndIndices sc) ! 2 = 7"
proof -
  let ?st = "two_boids\<lparr>dev_particleArrayIndices := DevPtr 3 [7, 7],
                      dev_particleGridIndices := DevPtr 4 [7, 7],
                      dev_gridCellStartIndices := DevPtr 5 (replicate 10648 7),
                      dev_gridCellEndIndices := DevPtr 6 (replicate 10648 7)\<rparr>"
  from stale_scattered [of dt] obtain sg where
    sg: "stepSimulationScatteredGrid insort_by_key dt ?st = Some sg"
    "mem (dev_gridCellStartIndices sg) = stale_table[5577 := 0]"
    "mem (dev_gridCellEndIndices sg) = stale_table[5577 := 1]"
    "mem (dev_particleGridIndices sg) = [5577, 5577]" by blast
  from stale_coherent [of dt] obtain sc where
    sc: "stepSimulationCoherentGrid insort_by_key dt ?st = Some sc"
    "mem (dev_gridCellStartIndices sc) = stale_table[5577 := 0]"
    "mem (dev_gridCellEndIndices sc) = stale_table[5577 := 1]"
    "mem (dev_particleGridIndices sc) = [5577, 5577]" by blast
  have r: "launch (c_int ((of_int (gridSideCount ?st) ^ 3 + of_int blockSize - 1) / of_int blockSize))
       (kernResetIntBuffer (numObjects ?st) (- 1)) (mem (dev_gridCellStartIndices ?st)) =
       Some ([- 1, - 1] @ replicate 10646 7)"
    using stale_reset by (simp add: two_boids_def fullGrids_22' stale_table_def)
  have n: "stale_table[5577 := v] ! 2 = 7" for v by simp
  show ?thesis
    apply (rule exI [of _ ?st], rule exI [of _ sg], rule exI [of _ sc])
    apply (simp only: stale_init sg sc r n simp_thms)
    apply (simp add: stale_table_def two_boids_def)
    done
qed


section \<open>The coherent step against the scattered step\<close>


lemma clamp_speed_code:
  "smul (if vx s = 0 \<and> vy s = 0 \<and> vz s = 0 then Vec3 0 0 0 else glm_normalize s)
     (min (glm_length s) maxSpeed) = clamp_speed s"
proof -
  have "Some (vel2[nat 0 := smul (if vx s = 0 \<and> vy s = 0 \<and> vz s = 0 then Vec3 0 0 0
                               else glm_normalize s) (min (glm_length s) maxSpeed)]) =
        Some (vel2[nat 0 := clamp_speed (s + 0)])" if "vel2 = [s]" for vel2
    using updateVelocities_thread [of 0 "[s]" vel2 0] that
    by (simp add: updateVelocities_def Let_def)
  from this [of "[s]"] show ?thesis by simp
qed

lemma updateVelocities_eq:
  "updateVelocities vel1 acc index vel2 =
     do { v \<leftarrow> rd vel1 index; wr vel2 index (clamp_speed (v + acc)) }"
  unfolding updateVelocities_def Let_def clamp_speed_code ..

lemma updateVelNeighborSearch_eq:
  "updateVelNeighborSearch N res gmin icw cw starts ends itb pos vel1 index vel2 =
     (if index < N
      then do { v \<leftarrow> thread_velocity N res gmin icw starts ends itb pos vel1 index;
                wr vel2 index v }
      else Some vel2)"
  unfolding updateVelNeighborSearch_def thread_velocity_def search_cells_def Let_def
    updateVelocities_eq
  by simp

lemma stepSimulationScatteredGrid_unfold:
  "stepSimulationScatteredGrid sbk dt st = do {
     (indices, gridIndices, starts, ends) \<leftarrow> build_grid sbk st;
     vel2 \<leftarrow> launch (c_div (numObjects st + blockSize - 1) blockSize)
       (kernUpdateVelNeighborSearchScattered (numObjects st) (gridSideCount st) (gridMinimum st)
          (gridInverseCellWidth st) (gridCellWidth st) starts ends indices
          (mem (dev_pos st)) (mem (dev_vel1 st)))
       (mem (dev_vel2 st));
     pos \<leftarrow> launch (c_div (numObjects st + blockSize - 1) blockSize)
       (kernUpdatePos (numObjects st) dt vel2) (mem (dev_pos st));
     Some (st\<lparr>dev_particleArrayIndices := upd (dev_particleArrayIndices st) indices,
              dev_particleGridIndices := upd (dev_particleGridIndices st) gridIndices,
              dev_gridCellStartIndices := upd (dev_gridCellStartIndices st) starts,
              dev_gridCellEndIndices := upd (dev_gridCellEndIndices st) ends,
              dev_pos := upd (dev_pos st) pos,
              dev_vel1 := upd (dev_vel2 st) vel2,
              dev_vel2 := dev_vel1 st\<rparr>)
   }"
  unfolding stepSimulationScatteredGrid_def build_grid_def Let_def split_def
  by simp


lemma stepSimulationCoherentGrid_unfold:
  "stepSimulationCoherentGrid sbk dt st = do {
     (indices, gridIndices, starts, ends) \<leftarrow> build_grid sbk st;
     (sortedPos, sortedVel) \<leftarrow> launch (c_div (numObjects st + blockSize - 1) blockSize)
       (kernSortPosVel indices (numObjects st) (mem (dev_pos st)) (mem (dev_vel1 st)))
       (mem (dev_sortedPos st), mem (dev_sortedVel st));
     vel2 \<leftarrow> launch (c_div (numObjects st + blockSize - 1) blockSize)
       (kernUpdateVelNeighborSearchCoherent (numObjects st) (gridSideCount st) (gridMinimum st)
          (gridInverseCellWidth st) (gridCellWidth st) starts ends sortedPos sortedVel)
       (mem (dev_vel2 st));
     pos \<leftarrow> launch (c_div (numObjects st + blockSize - 1) blockSize)
       (kernUpdatePos (numObjects st) dt vel2) sortedPos;
     Some (st\<lparr>dev_particleArrayIndices := upd (dev_particleArrayIndices st) indices,
              dev_particleGridIndices := upd (dev_particleGridIndices st) gridIndices,
              dev_gridCellStartIndices := upd (dev_gridCellStartIndices st) starts,
              dev_gridCellEndIndices := upd (dev_gridCellEndIndices st) ends,
              dev_sortedVel := upd (dev_sortedVel st) sortedVel,
              dev_pos := upd (dev_sortedPos st) pos,
              dev_sortedPos := dev_pos st,
              dev_vel1 := upd (dev_vel2 st) vel2,
              dev_vel2 := dev_vel1 st\<rparr>)
   }"
  unfolding stepSimulationCoherentGrid_def build_grid_def Let_def split_def
  by (simp add: upd_def)

lemma map_upt_update:
  assumes "m < length out"
  shows "(map f [0 ..< m] @ drop m out)[m := f m] = map f [0 ..< Suc m] @ drop (Suc m) out"
proof -
  have d: "drop m out = out ! m # drop (Suc m) out"
    using assms by (simp add: Cons_nth_drop_Suc)
  have "(map f [0 ..< m] @ drop m out)[m := f m] = map f [0 ..< m] @ (drop m out)[0 := f m]"
    by (simp add: list_update_append)
  also have "\<dots> = map f [0 ..< m] @ f m # drop (Suc m) out"
    by (subst d) simp
  finally show ?thesis by simp
qed

lemma for_loop_map2_result_nat:
  assumes body: "\<And>k t u. 0 \<le> k \<Longrightarrow> k < n \<Longrightarrow> length t = length out1 \<Longrightarrow> length u = length out2 \<Longrightarrow>
                   body k (t, u) = Some (t[nat k := f (nat k)], u[nat k := g (nat k)])"
    and m: "int m \<le> n" "m \<le> length out1" "m \<le> length out2"
  shows "for_loop 0 (int m) body (out1, out2) =
           Some (map f [0 ..< m] @ drop m out1, map g [0 ..< m] @ drop m out2)"
  using m
proof (induction m)
  case 0
  then show ?case by simp
next
  case (Suc m)
  let ?t = "map f [0 ..< m] @ drop m out1"
  let ?u = "map g [0 ..< m] @ drop m out2"
  have run: "for_loop 0 (int m) body (out1, out2) = Some (?t, ?u)" using Suc by simp
  have "body (int m) (?t, ?u) = Some (?t[nat (int m) := f (nat (int m))],
                                      ?u[nat (int m) := g (nat (int m))])"
    using Suc.prems by (intro body) simp_all
  then have "body (int m) (?t, ?u) =
      Some (map f [0 ..< Suc m] @ drop (Suc m) out1, map g [0 ..< Suc m] @ drop (Suc m) out2)"
    using Suc.prems by (simp add: map_upt_update del: upt_Suc)
  moreover have "for_loop 0 (int (Suc m)) body (out1, out2) =
      (case for_loop 0 (int m) body (out1, out2) of None \<Rightarrow> None | Some s' \<Rightarrow> body (int m) s')"
    using for_loop_last [of 0 "int m" body "(out1, out2)"] by (simp add: add.commute)
  ultimately show ?case using run by simp
qed

lemma launch_map2_result:
  assumes guard: "\<And>k t. N \<le> k \<Longrightarrow> kern k t = Some t"
    and body: "\<And>k t u. 0 \<le> k \<Longrightarrow> k < N \<Longrightarrow> length t = length out1 \<Longrightarrow> length u = length out2 \<Longrightarrow>
                 kern k (t, u) = Some (t[nat k := f (nat k)], u[nat k := g (nat k)])"
    and N: "0 \<le> N" "length out1 = nat N" "length out2 = nat N"
  shows "launch (c_div (N + blockSize - 1) blockSize) kern (out1, out2) =
           Some (map f [0 ..< nat N], map g [0 ..< nat N])"
proof -
  have "launch (c_div (N + blockSize - 1) blockSize) kern (out1, out2) =
          for_loop 0 N kern (out1, out2)"
    using guard N(1) by (rule launch_full)
  also have "\<dots> = for_loop 0 (int (nat N)) kern (out1, out2)" using N(1) by simp
  also have "\<dots> = Some (map f [0 ..< nat N] @ drop (nat N) out1,
                        map g [0 ..< nat N] @ drop (nat N) out2)"
    using body N by (intro for_loop_map2_result_nat [where n = N]) simp_all
  finally show ?thesis using N by simp
qed

lemma kernComputeIndices_launch:
  assumes "0 \<le> N" "length pos = nat N" "length ind = nat N" "length gind = nat N"
  shows "launch (c_div (N + blockSize - 1) blockSize)
           (kernComputeIndices N res gmin icw pos) (ind, gind) =
         Some (map int [0 ..< nat N], map (\<lambda>j. posToGridIndex (pos ! j) gmin icw res) [0 ..< nat N])"
proof (rule launch_map2_result)
  fix k t assume "N \<le> k"
  then show "kernComputeIndices N res gmin icw pos k t = Some t"
    by (cases t) (simp add: kernComputeIndices_def)
next
  fix k and t u :: "int list"
  assume "0 \<le> k" "k < N" "length t = length ind" "length u = length gind"
  then show "kernComputeIndices N res gmin icw pos k (t, u) =
      Some (t[nat k := int (nat k)], u[nat k := posToGridIndex (pos ! nat k) gmin icw res])"
    using assms by (simp add: kernComputeIndices_def)
qed (use assms in simp_all)

lemma kernSortPosVel_launch:
  assumes "0 \<le> N" "length sp = nat N" "length sv = nat N" "length perm = nat N"
    and "\<forall>k < nat N. 0 \<le> perm ! k \<and> perm ! k < int (length pos) \<and> perm ! k < int (length vel)"
  shows "launch (c_div (N + blockSize - 1) blockSize) (kernSortPosVel perm N pos vel) (sp, sv) =
         Some (map (\<lambda>k. pos ! nat (perm ! k)) [0 ..< nat N],
               map (\<lambda>k. vel ! nat (perm ! k)) [0 ..< nat N])"
proof (rule launch_map2_result)
  fix k t assume "N \<le> k"
  then show "kernSortPosVel perm N pos vel k t = Some t"
    by (cases t) (simp add: kernSortPosVel_def)
next
  fix k and t u :: "vec3 list"
  assume k: "0 \<le> k" "k < N" and "length t = length sp" "length u = length sv"
  moreover from k assms(5) have "0 \<le> perm ! nat k \<and> perm ! nat k < int (length pos) \<and>
      perm ! nat k < int (length vel)" by simp
  ultimately show "kernSortPosVel perm N pos vel k (t, u) =
      Some (t[nat k := pos ! nat (perm ! nat k)], u[nat k := vel ! nat (perm ! nat k)])"
    using assms(1-4) by (simp add: kernSortPosVel_def)
qed (use assms in simp_all)



lemma perm_facts:
  assumes "mset perm = mset (map int [0 ..< n])"
  shows "length perm = n" and "distinct perm"
    and "\<forall>k < n. 0 \<le> perm ! k \<and> perm ! k < int n"
    and "\<forall>a < n. \<exists>k < n. perm ! k = int a"
proof -
  show l: "length perm = n" using mset_eq_length [OF assms] by simp
  have "distinct (map int [0 ..< n])" by (simp add: distinct_map)
  then show "distinct perm" using mset_eq_imp_distinct_iff [OF assms] by simp
  have s: "set perm = int ` {0 ..< n}" using mset_eq_setD [OF assms] by simp
  show "\<forall>k < n. 0 \<le> perm ! k \<and> perm ! k < int n"
  proof (intro allI impI)
    fix k assume "k < n"
    then have "perm ! k \<in> set perm" using l by simp
    then show "0 \<le> perm ! k \<and> perm ! k < int n" unfolding s by auto
  qed
  show "\<forall>a < n. \<exists>k < n. perm ! k = int a"
  proof (intro allI impI)
    fix a assume "a < n"
    then have "int a \<in> set perm" unfolding s by simp
    then show "\<exists>k < n. perm ! k = int a" using l by (auto simp: in_set_conv_nth)
  qed
qed

lemma sorted_values_mset:
  assumes "sorts_by_key sbk" "length ks = length vs" "sbk ks vs = (ks', vs')"
  shows "mset vs' = mset vs \<and> length vs' = length vs"
proof -
  from assms(1) [unfolded sorts_by_key_def, rule_format, OF assms(2)]
  have l: "length ks' = length ks" "length vs' = length vs"
    and m: "mset (zip ks' vs') = mset (zip ks vs)"
    unfolding assms(3) by simp_all
  have "mset vs' = mset (map snd (zip ks' vs'))" using l assms(2) by simp
  also have "\<dots> = image_mset snd (mset (zip ks vs))" using m by simp
  also have "\<dots> = mset (map snd (zip ks vs))" by simp
  also have "\<dots> = mset vs" using assms(2) by simp
  finally show ?thesis using l by simp
qed

lemma thrust_sort_by_key_values:
  assumes "sorts_by_key sbk" "length keys = nat N" "length vals = nat N" "0 \<le> N"
    and "thrust_sort_by_key sbk N keys vals = Some p"
  shows "mset (snd p) = mset vals"
proof -
  obtain ks vs where kv: "sbk keys vals = (ks, vs)" by (cases "sbk keys vals")
  from sorted_values_mset [OF assms(1) _ kv] assms(2,3)
  have "mset vs = mset vals" by simp
  moreover have "p = (ks, vs)"
    using assms(2-5) kv by (simp add: thrust_sort_by_key_def)
  ultimately show ?thesis by simp
qed




lemma build_grid_perm:
  assumes "sorts_by_key sbk" "sized st" "build_grid sbk st = Some (perm, keys, starts, ends)"
  shows "mset perm = mset (map int [0 ..< nat (numObjects st)])"
proof -
  let ?N = "numObjects st"
  from assms(2) have N: "0 \<le> ?N" and l: "length (mem (dev_pos st)) = nat ?N"
    "length (mem (dev_particleArrayIndices st)) = nat ?N"
    "length (mem (dev_particleGridIndices st)) = nat ?N"
    unfolding sized_def vec_sized_def by blast+
  let ?keys0 = "map (\<lambda>j. posToGridIndex (mem (dev_pos st) ! j) (gridMinimum st)
                    (gridInverseCellWidth st) (gridSideCount st)) [0 ..< nat ?N]"
  have ci: "launch (c_div (?N + blockSize - 1) blockSize)
       (kernComputeIndices ?N (gridSideCount st) (gridMinimum st)
          (gridInverseCellWidth st) (mem (dev_pos st)))
       (mem (dev_particleArrayIndices st), mem (dev_particleGridIndices st)) =
       Some (map int [0 ..< nat ?N], ?keys0)"
    using N l by (rule kernComputeIndices_launch)
  have "\<exists>p. thrust_sort_by_key sbk ?N ?keys0 (map int [0 ..< nat ?N]) = Some p \<and> perm = snd p"
    using assms(3) unfolding build_grid_def Let_def split_def ci
    apply (simp only: bind.bind_lunit fst_conv snd_conv)
    apply (elim bindE)
    apply (thin_tac "launch _ _ _ = _")+
    apply auto
    done
  then obtain p where
    p: "thrust_sort_by_key sbk ?N ?keys0 (map int [0 ..< nat ?N]) = Some p" "perm = snd p"
    by blast
  from thrust_sort_by_key_values [OF assms(1) _ _ N p(1)] p(2) show ?thesis by simp
qed


lemma sorted_keys_follow:
  assumes "sorts_by_key sbk" "length ks = length vs" "sbk ks vs = (ks', vs')"
  shows "sorted ks' \<and> length ks' = length ks \<and>
         (\<forall>k < length ks. (ks' ! k, vs' ! k) \<in> set (zip ks vs))"
proof -
  from assms(1) [unfolded sorts_by_key_def, rule_format, OF assms(2)]
  have l: "length ks' = length ks" "length vs' = length vs" and s: "sorted ks'"
    and m: "mset (zip ks' vs') = mset (zip ks vs)"
    unfolding assms(3) by simp_all
  have "(ks' ! k, vs' ! k) \<in> set (zip ks vs)" if "k < length ks" for k
  proof -
    have "zip ks' vs' ! k \<in> set (zip ks' vs')"
      using that l assms(2) by (intro nth_mem) simp
    then show ?thesis using mset_eq_setD [OF m] that l assms(2) by simp
  qed
  with s l show ?thesis by blast
qed

lemma build_grid_keys:
  assumes "sorts_by_key sbk" "sized st" "build_grid sbk st = Some (perm, keys, starts, ends)"
  shows "sorted keys \<and> length keys = nat (numObjects st) \<and>
         (\<forall>k < nat (numObjects st).
            keys ! k = posToGridIndex (mem (dev_pos st) ! nat (perm ! k)) (gridMinimum st)
                         (gridInverseCellWidth st) (gridSideCount st))"
proof -
  let ?N = "numObjects st"
  from assms(2) have N: "0 \<le> ?N" and l: "length (mem (dev_pos st)) = nat ?N"
    "length (mem (dev_particleArrayIndices st)) = nat ?N"
    "length (mem (dev_particleGridIndices st)) = nat ?N"
    unfolding sized_def vec_sized_def by blast+
  let ?key = "\<lambda>j. posToGridIndex (mem (dev_pos st) ! j) (gridMinimum st)
                    (gridInverseCellWidth st) (gridSideCount st)"
  let ?keys0 = "map ?key [0 ..< nat ?N]"
  let ?idx0 = "map int [0 ..< nat ?N]"
  have ci: "launch (c_div (?N + blockSize - 1) blockSize)
       (kernComputeIndices ?N (gridSideCount st) (gridMinimum st)
          (gridInverseCellWidth st) (mem (dev_pos st)))
       (mem (dev_particleArrayIndices st), mem (dev_particleGridIndices st)) =
       Some (?idx0, ?keys0)"
    using N l by (rule kernComputeIndices_launch)
  have "\<exists>p. thrust_sort_by_key sbk ?N ?keys0 ?idx0 = Some p \<and> perm = snd p \<and> keys = fst p"
    using assms(3) unfolding build_grid_def Let_def split_def ci
    apply (simp only: bind.bind_lunit fst_conv snd_conv)
    apply (elim bindE)
    apply (thin_tac "launch _ _ _ = _")+
    apply auto
    done
  then obtain p where
    p: "thrust_sort_by_key sbk ?N ?keys0 ?idx0 = Some p" "perm = snd p" "keys = fst p"
    by blast
  obtain ks vs where kv: "sbk ?keys0 ?idx0 = (ks, vs)" by (cases "sbk ?keys0 ?idx0")
  have pe: "p = (ks, vs)"
    using p(1) kv N by (simp add: thrust_sort_by_key_def)
  from sorted_keys_follow [OF assms(1) _ kv]
  have s: "sorted ks" and lk: "length ks = nat ?N"
    and z: "\<And>k. k < nat ?N \<Longrightarrow> (ks ! k, vs ! k) \<in> set (zip ?keys0 ?idx0)"
    by simp_all
  have "ks ! k = ?key (nat (vs ! k))" if "k < nat ?N" for k
  proof -
    from z [OF that] obtain j where j: "j < length (zip ?keys0 ?idx0)"
      "zip ?keys0 ?idx0 ! j = (ks ! k, vs ! k)"
      unfolding in_set_conv_nth by blast
    from j(1) have jn: "j < nat ?N" by simp
    with j(2) have e: "ks ! k = ?keys0 ! j" "vs ! k = ?idx0 ! j" by simp_all
    from e(2) jn have "nat (vs ! k) = j" by simp
    with e(1) jn show ?thesis by simp
  qed
  with s lk show ?thesis unfolding p(2,3) pe by simp
qed



text \<open>
  The neighbour loop of the coherent search over the reordered buffers and that of the
  scattered search over the original ones do the same, slot by slot.
\<close>

lemma sorted_body_eq:
  assumes l: "length perm = n" "length pos = n" "length vel = n"
    and d: "distinct perm"
    and r: "\<forall>k < n. 0 \<le> perm ! k \<and> perm ! k < int n"
    and sp: "sp = map (\<lambda>k. pos ! nat (perm ! k)) [0 ..< n]"
    and sv: "sv = map (\<lambda>k. vel ! nat (perm ! k)) [0 ..< n]"
    and k: "k < n"
  shows "(if i = int k then Some a else rules_body T sp sv i a) =
         (rd perm i \<bind> (\<lambda>boid. if boid = perm ! k then Some a else rules_body T pos vel boid a))"
proof (cases "0 \<le> i \<and> i < int n")
  case True
  then have rp: "rd perm i = Some (perm ! nat i)" using l by simp
  show ?thesis
  proof (cases "i = int k")
    case True
    then show ?thesis using rp by simp
  next
    case False
    then have "nat i \<noteq> k" using True by auto
    moreover have "nat i < length perm" "k < length perm" using True l k by auto
    ultimately have ne: "perm ! nat i \<noteq> perm ! k"
      using d by (simp add: nth_eq_iff_index_eq)
    have ni: "nat i < n" using True by auto
    with r have b: "0 \<le> perm ! nat i" "perm ! nat i < int n" by blast+
    have e: "rd sp i = rd pos (perm ! nat i)" "rd sv i = rd vel (perm ! nat i)"
      using True b l ni by (simp_all add: sp sv)
    have "rules_body T sp sv i a = rules_body T pos vel (perm ! nat i) a"
      unfolding rules_body_def e ..
    then show ?thesis using False ne rp by simp
  qed
next
  case False
  then have "rd perm i = None" "rd sp i = None" using l by (auto simp: rd_def sp)
  moreover have "i \<noteq> int k" using False k by auto
  ultimately show ?thesis by (simp add: rules_body_def)
qed

lemma computeVelocityChangeInGrids_sorted:
  assumes l: "length perm = n" "length pos = n" "length vel = n"
    and d: "distinct perm"
    and r: "\<forall>k < n. 0 \<le> perm ! k \<and> perm ! k < int n"
    and sp: "sp = map (\<lambda>k. pos ! nat (perm ! k)) [0 ..< n]"
    and sv: "sv = map (\<lambda>k. vel ! nat (perm ! k)) [0 ..< n]"
    and k: "k < n"
  shows "computeVelocityChangeInGrids gts starts ends s e (int k) None sp sv =
         computeVelocityChangeInGrids gts starts ends s e (perm ! k) (Some perm) pos vel"
proof -
  from r k have b: "0 \<le> perm ! k" "perm ! k < int n" by simp_all
  have t: "rd sp (int k) = rd pos (perm ! k)"
    using k b l by (simp add: sp)
  have body: "(\<lambda>i a. Some i \<bind> (\<lambda>boid. if boid = int k then Some a
                                         else rules_body T sp sv boid a)) =
              (\<lambda>i a. rd perm i \<bind> (\<lambda>boid. if boid = perm ! k then Some a
                                           else rules_body T pos vel boid a))" for T
    using sorted_body_eq [OF l d r sp sv k] by (intro ext) simp
  show ?thesis
    unfolding computeVelocityChangeInGrids_def t option.case body ..
qed

lemma thread_velocity_sorted:
  assumes l: "length perm = n" "length pos = n" "length vel = n"
    and d: "distinct perm"
    and r: "\<forall>k < n. 0 \<le> perm ! k \<and> perm ! k < int n"
    and sp: "sp = map (\<lambda>k. pos ! nat (perm ! k)) [0 ..< n]"
    and sv: "sv = map (\<lambda>k. vel ! nat (perm ! k)) [0 ..< n]"
    and k: "k < n"
  shows "thread_velocity N res gmin icw starts ends None sp sv (int k) =
         thread_velocity N res gmin icw starts ends (Some perm) pos vel (perm ! k)"
proof -
  from r k have b: "0 \<le> perm ! k" "perm ! k < int n" by simp_all
  have t: "rd sp (int k) = rd pos (perm ! k)" "rd sv (int k) = rd vel (perm ! k)"
    using k b l by (simp_all add: sp sv)
  show ?thesis
    unfolding thread_velocity_def t
      computeVelocityChangeInGrids_sorted [OF l d r sp sv k] ..
qed



lemma search_thread_SomeD:
  assumes "updateVelNeighborSearch N res gmin icw cw starts ends itb pos vel k t = Some t'"
    and "k < N"
  shows "k < int (length t) \<and>
         (\<exists>v. thread_velocity N res gmin icw starts ends itb pos vel k = Some v \<and>
              t' = t[nat k := v])"
proof -
  from assms obtain v where v: "thread_velocity N res gmin icw starts ends itb pos vel k = Some v"
    and w: "wr t k v = Some t'"
    unfolding updateVelNeighborSearch_eq by (auto elim: bindE)
  from wr_SomeD [OF w] v show ?thesis by blast
qed

lemma search_launch_SomeD:
  assumes run: "launch (c_div (N + blockSize - 1) blockSize)
                  (updateVelNeighborSearch N res gmin icw cw starts ends itb pos vel) out = Some out'"
    and N: "0 \<le> N"
  shows "length out' = length out \<and>
         (\<forall>k. 0 \<le> k \<and> k < N \<longrightarrow>
            thread_velocity N res gmin icw starts ends itb pos vel k = Some (out' ! nat k))"
proof -
  let ?g = "\<lambda>k (p::vec3). thread_velocity N res gmin icw starts ends itb pos vel k"
  have "length out' = length out \<and> N \<le> int (length out) \<and>
         (\<forall>k. 0 \<le> k \<and> k < N \<longrightarrow> ?g k (out ! nat k) = Some (out' ! nat k)) \<and>
         (\<forall>j. nat N \<le> j \<longrightarrow> out' ! j = out ! j)"
  proof (rule launch_slots [OF run N])
    fix k t assume "N \<le> k"
    then show "updateVelNeighborSearch N res gmin icw cw starts ends itb pos vel k t = Some t"
      by (simp add: updateVelNeighborSearch_eq)
  next
    fix k t t'
    assume "0 \<le> k" "k < N"
      "updateVelNeighborSearch N res gmin icw cw starts ends itb pos vel k t = Some t'"
    from search_thread_SomeD [OF this(3,2)]
    show "k < int (length t) \<and> (\<exists>v. ?g k (t ! nat k) = Some v \<and> t' = t[nat k := v])" .
  qed
  then show ?thesis by blast
qed

lemma search_launch_total:
  assumes N: "0 \<le> N" "length out = nat N"
    and f: "\<forall>k < nat N. thread_velocity N res gmin icw starts ends itb pos vel (int k) = Some (f k)"
  shows "launch (c_div (N + blockSize - 1) blockSize)
           (updateVelNeighborSearch N res gmin icw cw starts ends itb pos vel) out =
         Some (map f [0 ..< nat N])"
proof (rule launch_map_result)
  fix k t assume "N \<le> k"
  then show "updateVelNeighborSearch N res gmin icw cw starts ends itb pos vel k t = Some t"
    by (simp add: updateVelNeighborSearch_eq)
next
  fix k and t :: "vec3 list"
  assume k: "0 \<le> k" "k < N" and t: "length t = length out"
  then have "nat k < nat N" by simp
  with f have "thread_velocity N res gmin icw starts ends itb pos vel (int (nat k)) = Some (f (nat k))"
    by blast
  then show "updateVelNeighborSearch N res gmin icw cw starts ends itb pos vel k t =
      Some (t[nat k := f (nat k)])"
    using k t N by (simp add: updateVelNeighborSearch_eq)
qed (use N in simp_all)

lemma perm_image_mset:
  assumes p: "mset perm = mset (map int [0 ..< n])"
    and l: "length xs = n" "length ys = n"
    and e: "\<forall>k < n. xs ! k = ys ! nat (perm ! k)"
  shows "mset xs = mset ys"
proof -
  have lp: "length perm = n" using mset_eq_length [OF p] by simp
  have "xs = map (\<lambda>a. ys ! nat a) perm"
    using l lp e by (intro nth_equalityI) simp_all
  then have "mset xs = image_mset (\<lambda>a. ys ! nat a) (mset perm)" by simp
  also have "\<dots> = mset (map (\<lambda>a. ys ! nat a) (map int [0 ..< n]))"
    unfolding p by (simp only: mset_map)
  also have "map (\<lambda>a. ys ! nat a) (map int [0 ..< n]) = ys"
    using l by (intro nth_equalityI) simp_all
  finally show ?thesis .
qed



lemma sorts_by_key_insort: "sorts_by_key insort_by_key"
  unfolding sorts_by_key_def insort_by_key_def Let_def
  by (simp add: zip_map_fst_snd)

lemma stepSimulationCoherentGrid_phases:
  assumes "stepSimulationCoherentGrid sbk dt st = Some st'"
  shows "\<exists>bg srt vel2 pos.
     build_grid sbk st = Some bg \<and>
     launch (c_div (numObjects st + blockSize - 1) blockSize)
       (kernSortPosVel (fst bg) (numObjects st) (mem (dev_pos st)) (mem (dev_vel1 st)))
       (mem (dev_sortedPos st), mem (dev_sortedVel st)) = Some srt \<and>
     launch (c_div (numObjects st + blockSize - 1) blockSize)
       (kernUpdateVelNeighborSearchCoherent (numObjects st) (gridSideCount st) (gridMinimum st)
          (gridInverseCellWidth st) (gridCellWidth st) (fst (snd (snd bg))) (snd (snd (snd bg)))
          (fst srt) (snd srt))
       (mem (dev_vel2 st)) = Some vel2 \<and>
     launch (c_div (numObjects st + blockSize - 1) blockSize)
       (kernUpdatePos (numObjects st) dt vel2) (fst srt) = Some pos \<and>
     mem (dev_pos st') = pos \<and> mem (dev_vel1 st') = vel2 \<and>
     mem (dev_particleArrayIndices st') = fst bg \<and>
     mem (dev_particleGridIndices st') = fst (snd bg)"
  using assms unfolding stepSimulationCoherentGrid_unfold split_def
  apply (elim bindE)
  apply (rule exI)+
  apply (rule conjI, assumption)
  apply (rule conjI, assumption)
  apply (rule conjI, assumption)
  apply (rule conjI, assumption)
  apply (thin_tac "launch _ _ _ = Some _")+
  apply (thin_tac "build_grid _ _ = Some _")
  apply (auto simp: upd_def)
  done



text \<open>
  A grid step from a state that is ready for it runs to its end: the cell ranges that
  \<^verbatim>\<open>kernIdentifyCellStartEnd\<close> leaves are harmless in every cell, so the neighbour
  search reads inside its arrays.
\<close>

lemma for_loop_total_inv:
  assumes init: "P i s" and le: "i \<le> n"
    and step: "\<And>k t. i \<le> k \<Longrightarrow> k < n \<Longrightarrow> P k t \<Longrightarrow> \<exists>t'. body k t = Some t' \<and> P (k + 1) t'"
  shows "\<exists>s'. for_loop i n body s = Some s' \<and> P n s'"
proof -
  from for_loop_total [of P i s n body, OF init step]
  obtain s' where s': "for_loop i n body s = Some s'" by blast
  have "P n s'"
  proof (rule for_loop_inv [OF s' le, where P = P])
    show "P i s" by (rule init)
  next
    fix k t t'
    assume a: "i \<le> k" "k < n" "P k t" "body k t = Some t'"
    from step [OF a(1-3)] a(4) show "P (k + 1) t'" by auto
  qed
  with s' show ?thesis by blast
qed

lemma cell_id_range:
  assumes "gridIndex3Dto1D x y z r \<noteq> gridOOB"
  shows "0 \<le> gridIndex3Dto1D x y z r \<and> gridIndex3Dto1D x y z r < r ^ 3"
proof -
  from assms have b: "0 \<le> x" "x < r" "0 \<le> y" "y < r" "0 \<le> z" "z < r"
    by (simp_all add: gridIndex3Dto1D_OOB_iff)
  then have e: "gridIndex3Dto1D x y z r = x + y * r + z * r * r"
    by (simp add: gridIndex3Dto1D_def)
  have n: "0 \<le> x + y * r + z * r * r" using b by (intro gridIndex_nonneg)
  have 1: "y * r \<le> (r - 1) * r" using b by (intro mult_right_mono) simp_all
  have "z * (r * r) \<le> (r - 1) * (r * r)" using b by (intro mult_right_mono) simp_all
  then have 2: "z * r * r \<le> (r - 1) * (r * r)" by (simp add: mult.assoc)
  from 1 2 b have "x + y * r + z * r * r \<le> (r - 1) + (r - 1) * r + (r - 1) * (r * r)"
    by linarith
  also have "\<dots> = r ^ 3 - 1" by (simp add: power3_eq_cube algebra_simps)
  finally show ?thesis using n e by simp
qed

lemma posToGridIndex_range:
  assumes "posToGridIndex p gmin icw r \<noteq> gridOOB"
  shows "0 \<le> posToGridIndex p gmin icw r \<and> posToGridIndex p gmin icw r < r ^ 3"
  using assms unfolding posToGridIndex_def Let_def by (rule cell_id_range)

lemma ranges_ok_end: "0 \<le> N \<Longrightarrow> ranges_ok N s e c \<Longrightarrow> e ! c \<le> N"
  by (auto simp: ranges_ok_def)

lemma ranges_ok_start_upd:
  assumes "0 \<le> N" "\<forall>c < length s. ranges_ok N s e c" "0 \<le> v" "g < length s" "length e = length s"
  shows "\<forall>c < length s. ranges_ok N (s[g := v]) e c"
proof (intro allI impI)
  fix c assume c: "c < length s"
  show "ranges_ok N (s[g := v]) e c"
  proof (cases "c = g")
    case True
    then show ?thesis using assms ranges_ok_end [of N s e c] c by (simp add: ranges_ok_def)
  next
    case False
    then show ?thesis using assms(2) c by (simp add: ranges_ok_def)
  qed
qed

lemma ranges_ok_end_upd:
  assumes "\<forall>c < length s. ranges_ok N s e c" "v \<le> N" "0 \<le> s ! g" "g < length s"
    "length e = length s"
  shows "\<forall>c < length s. ranges_ok N s (e[g := v]) c"
proof (intro allI impI)
  fix c assume c: "c < length s"
  show "ranges_ok N s (e[g := v]) c"
  proof (cases "c = g")
    case True
    then show ?thesis using assms c by (simp add: ranges_ok_def)
  next
    case False
    then show ?thesis using assms(1) c by (simp add: ranges_ok_def)
  qed
qed

lemma kernIdentifyCellStartEnd_total:
  assumes N: "0 \<le> N" and lk: "length ks = nat N"
    and kr: "\<forall>k < nat N. 0 \<le> ks ! k \<and> ks ! k < int L"
    and ls: "length s = L" and le: "length e = L"
    and ok: "\<forall>c < L. ranges_ok N s e c"
  shows "\<exists>s' e'. launch (c_div (N + blockSize - 1) blockSize) (kernIdentifyCellStartEnd N ks) (s, e) =
                   Some (s', e') \<and>
                 length s' = L \<and> length e' = L \<and> (\<forall>c < L. ranges_ok N s' e' c)"
proof -
  let ?P = "\<lambda>k (t :: int list \<times> int list). length (fst t) = L \<and> length (snd t) = L \<and>
              (\<forall>c < L. ranges_ok N (fst t) (snd t) c) \<and>
              (\<forall>j. 0 \<le> j \<and> j < k \<longrightarrow> 0 \<le> fst t ! nat (ks ! nat j))"
  have g: "\<And>k t. N \<le> k \<Longrightarrow> kernIdentifyCellStartEnd N ks k t = Some t"
    by (simp add: kernIdentifyCellStartEnd_def split_def)
  have "\<exists>t'. for_loop 0 N (kernIdentifyCellStartEnd N ks) (s, e) = Some t' \<and> ?P N t'"
  proof (rule for_loop_total_inv [where P = ?P])
    show "?P 0 (s, e)" using ls le ok by auto
    show "0 \<le> N" by (rule N)
  next
    fix k t
    assume k: "0 \<le> k" "k < N" and P: "?P k t"
    obtain a b where t: "t = (a, b)" by (cases t)
    from P t have la: "length a = L" and lb: "length b = L"
      and rk: "\<forall>c < length a. ranges_ok N a b c"
      and st: "\<And>j. 0 \<le> j \<Longrightarrow> j < k \<Longrightarrow> 0 \<le> a ! nat (ks ! nat j)"
      by simp_all
    have kn: "nat k < nat N" using k by simp
    define this where "this = ks ! nat k"
    from kr kn have tr: "0 \<le> this" "this < int L" by (simp_all add: this_def)
    have rt: "rd ks k = Some this" using k lk by (simp add: this_def)
    have tl: "nat this < length a" using tr la by simp
    have keep: "\<forall>j. 0 \<le> j \<and> j < k + 1 \<longrightarrow> 0 \<le> a' ! nat (ks ! nat j)"
      if a': "a' = a[nat this := v] \<or> (a' = a \<and> k \<noteq> 0 \<and> this = ks ! nat (k - 1))"
        and v: "0 \<le> v" for a' and v :: int
    proof (intro allI impI)
      fix j assume j: "0 \<le> j \<and> j < k + 1"
      show "0 \<le> a' ! nat (ks ! nat j)"
      proof (cases "j = k")
        case True
        from a' show ?thesis
        proof
          assume "a' = a[nat this := v]"
          then show ?thesis using True tl v by (simp add: this_def)
        next
          assume h: "a' = a \<and> k \<noteq> 0 \<and> this = ks ! nat (k - 1)"
          then have "0 \<le> a ! nat (ks ! nat (k - 1))" using k by (intro st) simp_all
          then show ?thesis using h True by (simp add: this_def)
        qed
      next
        case False
        then have jk: "j < k" using j by simp
        have o: "0 \<le> a ! nat (ks ! nat j)" using j jk by (intro st) simp_all
        from a' show ?thesis
        proof
          assume "a' = a[nat this := v]"
          then show ?thesis using o v tl by (simp add: nth_list_update)
        next
          assume "a' = a \<and> k \<noteq> 0 \<and> this = ks ! nat (k - 1)"
          then show ?thesis using o by simp
        qed
      qed
    qed
    show "\<exists>t'. kernIdentifyCellStartEnd N ks k t = Some t' \<and> ?P (k + 1) t'"
    proof (cases "k = 0")
      case True
      have r: "kernIdentifyCellStartEnd N ks k t = Some (a[nat this := 0], b)"
        using k True rt tr la by (simp add: kernIdentifyCellStartEnd_def t)
      have 1: "\<forall>c < length a. ranges_ok N (a[nat this := 0]) b c"
        using N rk _ tl by (rule ranges_ok_start_upd) (simp_all add: la lb)
      from keep [of "a[nat this := 0]" 0]
      have 2: "\<forall>j. 0 \<le> j \<and> j < k + 1 \<longrightarrow> 0 \<le> a[nat this := 0] ! nat (ks ! nat j)" by simp
      show ?thesis unfolding r using 1 2 la lb by simp
    next
      case False
      define prev where "prev = ks ! nat (k - 1)"
      have pn: "nat (k - 1) < nat N" using k False by simp
      from kr pn have pr: "0 \<le> prev" "prev < int L" by (simp_all add: prev_def)
      have rp: "rd ks (k - 1) = Some prev" using k False lk by (simp add: prev_def)
      have sp: "0 \<le> a ! nat prev" unfolding prev_def using k False by (intro st) simp_all
      have pl: "nat prev < length a" using pr la by simp
      show ?thesis
      proof (cases "this = prev")
        case same: True
        show ?thesis
        proof (cases "k = N - 1")
          case True
          have r: "kernIdentifyCellStartEnd N ks k t = Some (a, b[nat this := k])"
            using k True False rt rp tr lb same
            by (simp add: kernIdentifyCellStartEnd_def t)
          have 1: "\<forall>c < length a. ranges_ok N a (b[nat this := k]) c"
            using rk _ _ tl by (rule ranges_ok_end_upd) (use k sp same la lb in simp_all)
          from keep [of a 0] same False
          have 2: "\<forall>j. 0 \<le> j \<and> j < k + 1 \<longrightarrow> 0 \<le> a ! nat (ks ! nat j)"
            by (simp add: prev_def)
          show ?thesis unfolding r using 1 2 la lb by simp
        next
          case nl: False
          have r: "kernIdentifyCellStartEnd N ks k t = Some (a, b)"
            using k nl False rt rp same by (simp add: kernIdentifyCellStartEnd_def t)
          from keep [of a 0] same False
          have 2: "\<forall>j. 0 \<le> j \<and> j < k + 1 \<longrightarrow> 0 \<le> a ! nat (ks ! nat j)"
            by (simp add: prev_def)
          show ?thesis unfolding r using rk 2 la lb by simp
        qed
      next
        case diff: False
        have 1: "\<forall>c < length a. ranges_ok N (a[nat this := k]) b c"
          using N rk _ tl by (rule ranges_ok_start_upd) (use k la lb in simp_all)
        from keep [of "a[nat this := k]" k] k
        have 2: "\<forall>j. 0 \<le> j \<and> j < k + 1 \<longrightarrow> 0 \<le> a[nat this := k] ! nat (ks ! nat j)" by simp
        show ?thesis
        proof (cases "k = N - 1")
          case True
          have r: "kernIdentifyCellStartEnd N ks k t = Some (a[nat this := k], b[nat this := k])"
            using k True False rt rp tr la lb diff
            by (simp add: kernIdentifyCellStartEnd_def t)
          have "\<forall>c < length (a[nat this := k]). ranges_ok N (a[nat this := k]) (b[nat this := k]) c"
            using 1 by (intro ranges_ok_end_upd) (use k tl la lb in simp_all)
          then show ?thesis unfolding r using 2 la lb by simp
        next
          case nl: False
          have r: "kernIdentifyCellStartEnd N ks k t = Some (a[nat this := k], b[nat prev := k])"
            using k nl False rt rp tr pr la lb diff
            by (simp add: kernIdentifyCellStartEnd_def t)
          have np: "nat this \<noteq> nat prev" using diff tr pr by simp
          have "\<forall>c < length (a[nat this := k]). ranges_ok N (a[nat this := k]) (b[nat prev := k]) c"
            using 1 by (intro ranges_ok_end_upd) (use k pl sp np la lb in simp_all)
          then show ?thesis unfolding r using 2 la lb by simp
        qed
      qed
    qed
  qed
  then obtain t' where "for_loop 0 N (kernIdentifyCellStartEnd N ks) (s, e) = Some t'" "?P N t'"
    by blast
  then show ?thesis
    using launch_full [of N "kernIdentifyCellStartEnd N ks" "(s, e)", OF g N]
    by (cases t') auto
qed

lemma cell_id_cases:
  "gridIndex3Dto1D x y z r = gridOOB \<or>
   (0 \<le> gridIndex3Dto1D x y z r \<and> gridIndex3Dto1D x y z r < r ^ 3)"
  using cell_id_range [of x y z r] by blast

lemma for_loop_keeps:
  assumes "Q s" "i \<le> n"
    and "\<And>k t. i \<le> k \<Longrightarrow> k < n \<Longrightarrow> Q t \<Longrightarrow> \<exists>t'. body k t = Some t' \<and> Q t'"
  shows "\<exists>s'. for_loop i n body s = Some s' \<and> Q s'"
  using assms by (intro for_loop_total_inv [where P = "\<lambda>_. Q"]) simp_all

lemma search_cells_total:
  assumes "0 < r"
  shows "\<exists>g. search_cells tg r = Some g \<and> cells_ok r g"
  unfolding search_cells_def
proof (rule for_loop_keeps [where Q = "cells_ok r"])
  show "cells_ok r (replicate (nat maxNumGridSearch) 0)"
    using assms by (simp add: cells_ok_def maxNumGridSearch_def dim_def)
  show "(- 1 :: int) \<le> 2" by simp
next
  fix x :: int and g assume x: "- 1 \<le> x" "x < 2" and g: "cells_ok r g"
  show "\<exists>g'. for_loop (- 1) 2 (\<lambda>y g.
              for_loop (- 1) 2 (\<lambda>z g. do {
                let grid = gridIndex3Dto1D (c_int (vx tg + of_int x))
                             (c_int (vy tg + of_int y)) (c_int (vz tg + of_int z)) r;
                let n = gridIndex3Dto1D (x + 1) (y + 1) (z + 1) dim;
                wr g n grid
              }) g) g = Some g' \<and> cells_ok r g'"
  proof (rule for_loop_keeps [where Q = "cells_ok r"])
    show "cells_ok r g" by (rule g)
    show "(- 1 :: int) \<le> 2" by simp
  next
    fix y :: int and g assume y: "- 1 \<le> y" "y < 2" and g: "cells_ok r g"
    show "\<exists>g'. for_loop (- 1) 2 (\<lambda>z g. do {
                let grid = gridIndex3Dto1D (c_int (vx tg + of_int x))
                             (c_int (vy tg + of_int y)) (c_int (vz tg + of_int z)) r;
                let n = gridIndex3Dto1D (x + 1) (y + 1) (z + 1) dim;
                wr g n grid
              }) g = Some g' \<and> cells_ok r g'"
    proof (rule for_loop_keeps [where Q = "cells_ok r"])
      show "cells_ok r g" by (rule g)
      show "(- 1 :: int) \<le> 2" by simp
    next
      fix z :: int and g assume z: "- 1 \<le> z" "z < 2" and g: "cells_ok r g"
      let ?n = "gridIndex3Dto1D (x + 1) (y + 1) (z + 1) dim"
      let ?c = "gridIndex3Dto1D (c_int (vx tg + of_int x))
                             (c_int (vy tg + of_int y)) (c_int (vz tg + of_int z)) r"
      have "?n \<noteq> gridOOB" using x y z by (simp add: gridIndex3Dto1D_OOB_iff dim_def)
      from cell_id_range [OF this] have n: "0 \<le> ?n" "?n < 27" by (simp_all add: dim_def)
      then have w: "wr g ?n ?c = Some (g[nat ?n := ?c])" using g by (simp add: cells_ok_def)
      have "set (g[nat ?n := ?c]) \<subseteq> insert ?c (set g)" by (rule set_update_subset_insert)
      then have "cells_ok r (g[nat ?n := ?c])"
        using g cell_id_cases [of "c_int (vx tg + of_int x)" "c_int (vy tg + of_int y)"
            "c_int (vz tg + of_int z)" r]
        unfolding cells_ok_def by auto
      with w show "\<exists>g'. do {
                let grid = ?c;
                let n = ?n;
                wr g n grid
              } = Some g' \<and> cells_ok r g'" by (simp add: Let_def)
    qed
  qed
qed

lemma ranges_ok_reads:
  assumes ok: "ranges_ok N starts ends (nat c)" and c: "0 \<le> c" "c < int (length starts)"
    "length ends = length starts"
    and N: "N \<le> int (length pos)" "N \<le> int (length vel)"
    and itb: "case itb of None \<Rightarrow> True
              | Some t \<Rightarrow> length t = nat N \<and>
                  (\<forall>i < nat N. 0 \<le> t ! i \<and> t ! i < int (length pos) \<and> t ! i < int (length vel))"
  shows "cell_reads_ok starts ends itb pos vel c"
proof -
  have "(case itb of Some t \<Rightarrow> 0 \<le> i \<and> i < int (length t) | None \<Rightarrow> True) \<and>
        0 \<le> boid_at itb i \<and> boid_at itb i < int (length pos) \<and> boid_at itb i < int (length vel)"
    if i: "starts ! nat c \<le> i" "i \<le> ends ! nat c - 1" for i
  proof -
    from ok i have b: "0 \<le> i" "i < N" by (auto simp: ranges_ok_def)
    show ?thesis
    proof (cases itb)
      case None
      then show ?thesis using b N by (simp add: boid_at_def)
    next
      case (Some t)
      with itb have l: "length t = nat N"
        and r: "\<forall>i < nat N. 0 \<le> t ! i \<and> t ! i < int (length pos) \<and> t ! i < int (length vel)"
        by simp_all
      have "nat i < nat N" using b by simp
      with r have "0 \<le> t ! nat i \<and> t ! nat i < int (length pos) \<and> t ! nat i < int (length vel)"
        by blast
      then show ?thesis using Some b l by (simp add: boid_at_def)
    qed
  qed
  then show ?thesis using c by (simp add: cell_reads_ok_def list_all_iff)
qed

lemma thread_velocity_total:
  assumes r: "0 < r" and k: "0 \<le> k" "k < int (length pos)" "k < int (length vel)"
    and l: "length starts = nat (r ^ 3)" "length ends = nat (r ^ 3)"
    and ok: "\<forall>c < nat (r ^ 3). ranges_ok N starts ends c"
    and N: "N \<le> int (length pos)" "N \<le> int (length vel)"
    and itb: "case itb of None \<Rightarrow> True
              | Some t \<Rightarrow> length t = nat N \<and>
                  (\<forall>i < nat N. 0 \<le> t ! i \<and> t ! i < int (length pos) \<and> t ! i < int (length vel))"
  shows "\<exists>v. thread_velocity N r gmin icw starts ends itb pos vel k = Some v"
proof -
  from search_cells_total [OF r, of "posToGrid (pos ! nat k) gmin icw r"]
  obtain g where g: "search_cells (posToGrid (pos ! nat k) gmin icw r) r = Some g"
    and cg: "cells_ok r g" by blast
  have "cell_reads_ok starts ends itb pos vel c" if "c \<in> set g" for c
  proof (cases "c = gridOOB")
    case True
    then show ?thesis by (simp add: cell_reads_ok_def)
  next
    case False
    with cg that have c: "0 \<le> c" "c < r ^ 3" by (auto simp: cells_ok_def)
    then have "nat c < nat (r ^ 3)" using r by simp
    with ok have "ranges_ok N starts ends (nat c)" by blast
    moreover have "c < int (length starts)" using c l r by simp
    ultimately show ?thesis using c l N itb by (intro ranges_ok_reads) simp_all
  qed
  then have "list_all (cell_reads_ok starts ends itb pos vel) g" by (simp add: list_all_iff)
  moreover have "length g = nat maxNumGridSearch"
    using cg by (simp add: cells_ok_def maxNumGridSearch_def dim_def)
  ultimately have "computeVelocityChangeInGrids g starts ends 0 N k itb pos vel =
      Some (rule_sum (pos ! nat k) pos vel (grid_candidates g starts ends itb k))"
    using k by (intro computeVelocityChangeInGrids_eq) simp_all
  then show ?thesis using k g by (simp add: thread_velocity_def)
qed

lemma search_launch_runs:
  assumes r: "0 < r" and N: "0 \<le> N" "length out = nat N" "length pos = nat N" "length vel = nat N"
    and l: "length starts = nat (r ^ 3)" "length ends = nat (r ^ 3)"
    and ok: "\<forall>c < nat (r ^ 3). ranges_ok N starts ends c"
    and itb: "case itb of None \<Rightarrow> True
              | Some t \<Rightarrow> length t = nat N \<and>
                  (\<forall>i < nat N. 0 \<le> t ! i \<and> t ! i < int (length pos) \<and> t ! i < int (length vel))"
  shows "\<exists>out'. launch (c_div (N + blockSize - 1) blockSize)
           (updateVelNeighborSearch N r gmin icw cw starts ends itb pos vel) out = Some out' \<and>
           length out' = nat N"
proof -
  define f where "f k = the (thread_velocity N r gmin icw starts ends itb pos vel (int k))" for k
  have "\<forall>k < nat N. thread_velocity N r gmin icw starts ends itb pos vel (int k) = Some (f k)"
  proof (intro allI impI)
    fix k assume "k < nat N"
    then have "\<exists>v. thread_velocity N r gmin icw starts ends itb pos vel (int k) = Some v"
      using r l ok itb N by (intro thread_velocity_total) simp_all
    then show "thread_velocity N r gmin icw starts ends itb pos vel (int k) = Some (f k)"
      by (auto simp: f_def)
  qed
  from search_launch_total [OF N(1,2) this] show ?thesis by simp
qed

lemma fullGrids_cover:
  assumes "0 \<le> (S::int)"
  shows "S \<le> c_int ((of_int S + of_int blockSize - 1) / of_int blockSize) * blockSize"
proof -
  have a: "(of_int S + of_int blockSize - 1 :: real) / of_int blockSize =
      of_int (S + 127) / of_int 128"
    by (simp add: blockSize_def)
  have b: "c_int (of_int (S + 127) / of_int 128) = (S + 127) div 128"
    using assms unfolding c_int_def floor_divide_of_int_eq by simp
  have e: "c_int ((of_int S + of_int blockSize - 1) / of_int blockSize) = (S + 127) div 128"
    unfolding a by (rule b)
  show ?thesis unfolding e using assms by (simp add: blockSize_def)
qed

lemma build_grid_total:
  assumes sbk: "sorts_by_key sbk" and rdy: "grid_ready st"
  shows "\<exists>perm keys starts ends. build_grid sbk st = Some (perm, keys, starts, ends) \<and>
           length starts = nat (gridSideCount st ^ 3) \<and> length ends = nat (gridSideCount st ^ 3) \<and>
           (\<forall>c < nat (gridSideCount st ^ 3). ranges_ok (numObjects st) starts ends c)"
proof -
  let ?N = "numObjects st"
  let ?n = "nat ?N"
  let ?r = "gridSideCount st"
  let ?L = "nat (?r ^ 3)"
  let ?s0 = "mem (dev_gridCellStartIndices st)"
  let ?e0 = "mem (dev_gridCellEndIndices st)"
  from rdy have sz: "sized st" and r: "0 < ?r" and NL: "?N \<le> ?r ^ 3"
    and ls: "length ?s0 = ?L" and le: "length ?e0 = ?L"
    and inb: "list_all (\<lambda>p. posToGridIndex p (gridMinimum st) (gridInverseCellWidth st) ?r
                    \<noteq> gridOOB) (mem (dev_pos st))"
    and old: "list_all (ranges_ok ?N ?s0 ?e0) [?n ..< ?L]"
    unfolding grid_ready_def by blast+
  from sz have N: "0 \<le> ?N" and l: "length (mem (dev_pos st)) = ?n"
    "length (mem (dev_particleArrayIndices st)) = ?n"
    "length (mem (dev_particleGridIndices st)) = ?n"
    unfolding sized_def vec_sized_def by blast+
  let ?key = "\<lambda>j. posToGridIndex (mem (dev_pos st) ! j) (gridMinimum st)
                    (gridInverseCellWidth st) ?r"
  let ?keys0 = "map ?key [0 ..< ?n]"
  let ?idx0 = "map int [0 ..< ?n]"
  have ci: "launch (c_div (?N + blockSize - 1) blockSize)
       (kernComputeIndices ?N ?r (gridMinimum st) (gridInverseCellWidth st) (mem (dev_pos st)))
       (mem (dev_particleArrayIndices st), mem (dev_particleGridIndices st)) =
       Some (?idx0, ?keys0)"
    using N l by (rule kernComputeIndices_launch)
  obtain ks vs where kv: "sbk ?keys0 ?idx0 = (ks, vs)" by (cases "sbk ?keys0 ?idx0")
  have so: "thrust_sort_by_key sbk ?N ?keys0 ?idx0 = Some (ks, vs)"
    using kv N by (simp add: thrust_sort_by_key_def)
  from sorted_keys_follow [OF sbk _ kv]
  have lk: "length ks = ?n"
    and z: "\<And>k. k < ?n \<Longrightarrow> (ks ! k, vs ! k) \<in> set (zip ?keys0 ?idx0)"
    by simp_all
  have kr: "\<forall>k < ?n. 0 \<le> ks ! k \<and> ks ! k < int ?L"
  proof (intro allI impI)
    fix k assume "k < ?n"
    from z [OF this] have "ks ! k \<in> set ?keys0" by (rule set_zip_leftD)
    then obtain j where j: "j < ?n" "ks ! k = ?key j" by auto
    from inb j(1) l(1) have "?key j \<noteq> gridOOB" by (simp add: list_all_length)
    from posToGridIndex_range [OF this] show "0 \<le> ks ! k \<and> ks ! k < int ?L"
      using j(2) r by simp
  qed
  have cover: "?N \<le> c_int ((of_int ?r ^ 3 + of_int blockSize - 1) / of_int blockSize) * blockSize"
  proof -
    have "?r ^ 3 \<le> c_int ((of_int (?r ^ 3) + of_int blockSize - 1) / of_int blockSize) * blockSize"
      using r by (intro fullGrids_cover) simp
    with NL show ?thesis by simp
  qed
  have nl: "?N \<le> int ?L" using NL r by simp
  let ?s1 = "replicate ?n (- 1) @ drop ?n ?s0"
  let ?e1 = "replicate ?n (- 1) @ drop ?n ?e0"
  have rs: "launch (c_int ((of_int ?r ^ 3 + of_int blockSize - 1) / of_int blockSize))
              (kernResetIntBuffer ?N (- 1)) ?s0 = Some ?s1"
    using N nl cover by (intro kernResetIntBuffer_launch) (simp_all add: ls)
  have re: "launch (c_int ((of_int ?r ^ 3 + of_int blockSize - 1) / of_int blockSize))
              (kernResetIntBuffer ?N (- 1)) ?e0 = Some ?e1"
    using N nl cover by (intro kernResetIntBuffer_launch) (simp_all add: le)
  have "?n \<le> ?L" using nl N by linarith
  then have l1: "length ?s1 = ?L" "length ?e1 = ?L" using ls le by simp_all
  have ok1: "\<forall>c < ?L. ranges_ok ?N ?s1 ?e1 c"
  proof (intro allI impI)
    fix c assume c: "c < ?L"
    show "ranges_ok ?N ?s1 ?e1 c"
    proof (cases "c < ?n")
      case True
      then show ?thesis by (simp add: ranges_ok_def nth_append)
    next
      case False
      then have "ranges_ok ?N ?s0 ?e0 c" using old c by (simp add: list_all_iff)
      then show ?thesis using False c ls le by (simp add: ranges_ok_def nth_append)
    qed
  qed
  from kernIdentifyCellStartEnd_total [OF N lk kr l1 ok1]
  obtain s' e' where id: "launch (c_div (?N + blockSize - 1) blockSize)
        (kernIdentifyCellStartEnd ?N ks) (?s1, ?e1) = Some (s', e')"
    and l': "length s' = ?L" "length e' = ?L" and ok': "\<forall>c < ?L. ranges_ok ?N s' e' c"
    by blast
  have "build_grid sbk st = Some (vs, ks, s', e')"
    unfolding build_grid_def Let_def ci by (simp add: so rs re id)
  with l' ok' show ?thesis by blast
qed

lemma stepSimulationCoherentGrid_total:
  assumes sbk: "sorts_by_key sbk" and rdy: "grid_ready st"
  shows "\<exists>st'. stepSimulationCoherentGrid sbk dt st = Some st'"
proof -
  let ?N = "numObjects st"
  let ?n = "nat ?N"
  let ?r = "gridSideCount st"
  let ?B = "c_div (?N + blockSize - 1) blockSize"
  let ?pos = "mem (dev_pos st)"
  let ?vel = "mem (dev_vel1 st)"
  from rdy have sz: "sized st" and r: "0 < ?r" unfolding grid_ready_def by blast+
  from sz have N: "0 \<le> ?N"
    and lpos: "length ?pos = ?n" and lvel: "length ?vel = ?n"
    and lv2: "length (mem (dev_vel2 st)) = ?n"
    and lsp: "length (mem (dev_sortedPos st)) = ?n"
    and lsv: "length (mem (dev_sortedVel st)) = ?n"
    unfolding sized_def vec_sized_def by blast+
  from build_grid_total [OF sbk rdy]
  obtain perm keys starts ends where bg: "build_grid sbk st = Some (perm, keys, starts, ends)"
    and l: "length starts = nat (?r ^ 3)" "length ends = nat (?r ^ 3)"
    and ok: "\<forall>c < nat (?r ^ 3). ranges_ok ?N starts ends c"
    by blast
  have pm: "mset perm = mset (map int [0 ..< ?n])"
    using sbk sz bg by (rule build_grid_perm)
  note pf = perm_facts [OF pm]
  define sp where "sp = map (\<lambda>k. ?pos ! nat (perm ! k)) [0 ..< ?n]"
  define sv where "sv = map (\<lambda>k. ?vel ! nat (perm ! k)) [0 ..< ?n]"
  have s: "launch ?B (kernSortPosVel perm ?N ?pos ?vel)
          (mem (dev_sortedPos st), mem (dev_sortedVel st)) = Some (sp, sv)"
    unfolding sp_def sv_def using N lsp lsv pf(1) pf(3) lpos lvel
    by (intro kernSortPosVel_launch) simp_all
  have lsp': "length sp = ?n" and lsv': "length sv = ?n" by (simp_all add: sp_def sv_def)
  have kc: "kernUpdateVelNeighborSearchCoherent ?N ?r (gridMinimum st)
              (gridInverseCellWidth st) (gridCellWidth st) starts ends sp sv =
            updateVelNeighborSearch ?N ?r (gridMinimum st)
              (gridInverseCellWidth st) (gridCellWidth st) starts ends None sp sv"
    by (intro ext) (simp add: kernUpdateVelNeighborSearchCoherent_def)
  have "\<exists>out'. launch ?B (updateVelNeighborSearch ?N ?r (gridMinimum st)
              (gridInverseCellWidth st) (gridCellWidth st) starts ends None sp sv)
              (mem (dev_vel2 st)) = Some out' \<and> length out' = ?n"
    using r N lv2 lsp' lsv' l ok by (intro search_launch_runs) simp_all
  then obtain vel2 where v: "launch ?B (kernUpdateVelNeighborSearchCoherent ?N ?r (gridMinimum st)
              (gridInverseCellWidth st) (gridCellWidth st) starts ends sp sv)
              (mem (dev_vel2 st)) = Some vel2" and lv: "length vel2 = ?n"
    unfolding kc by blast
  have p: "launch ?B (kernUpdatePos ?N dt vel2) sp =
          Some (map (\<lambda>j. integrate (sp ! j) (vel2 ! j) dt) [0 ..< ?n])"
    using N lsp' lv by (rule kernUpdatePos_launch)
  show ?thesis
    unfolding stepSimulationCoherentGrid_unfold bg by (simp add: s v p)
qed

text \<open>The coherent step on the second example state, phase by phase.\<close>

lemma init_crossed_boids:
  "initSimulation crossed_draw crossed_junk (\<lambda>_ _. - 1) 2 = Some crossed_boids"
proof -
  have "initSimulation crossed_draw crossed_junk (\<lambda>_ _. - 1) (int 2) = Some crossed_boids"
    unfolding initSimulation_eq two_boids_def crossed_boids_def
    by (simp add: init_positions_def generateRandomVec3_def crossed_draw_def crossed_junk_def
        upt_0_2 map_replicate_const scene_scale_def hash_def Let_def del: upt_rec_numeral)
  then show ?thesis by simp
qed

lemma crossed_indices:
  "launch 1 (kernComputeIndices 2 22 (Vec3 (- 110) (- 110) (- 110)) (1 / 10)
           [Vec3 50 1 1, Vec3 1 1 1]) ([- 1, - 1], [- 1, - 1]) = Some ([0, 1], [5582, 5577])"
proof -
  have "launch 1 (kernComputeIndices 2 22 (Vec3 (- 110) (- 110) (- 110)) (1 / 10)
           [Vec3 50 1 1, Vec3 1 1 1]) ([- 1, - 1], [- 1, - 1]) =
        for_loop 0 2 (kernComputeIndices 2 22 (Vec3 (- 110) (- 110) (- 110)) (1 / 10)
           [Vec3 50 1 1, Vec3 1 1 1]) ([- 1, - 1], [- 1, - 1])"
    by (rule launch_guarded) (auto simp: kernComputeIndices_def blockSize_def)
  also have "\<dots> = Some ([0, 1], [5582, 5577])"
    by (simp add: for_loop.simps kernComputeIndices_def posToGridIndex_def posToGrid_eq
        cell_coord_def gridIndex3Dto1D_def rd_def wr_def)
  finally show ?thesis .
qed

lemma crossed_sort:
  "thrust_sort_by_key insort_by_key 2 [5582, 5577] [0, 1] = Some ([5577, 5582], [1, 0])"
  by (simp add: thrust_sort_by_key_def insort_by_key_def)

lemma crossed_cells:
  "launch 1 (kernIdentifyCellStartEnd 2 [5577, 5582])
     (replicate 10648 (- 1), replicate 10648 (- 1)) =
   Some ((replicate 10648 (- 1))[5577 := 0, 5582 := 1], (replicate 10648 (- 1))[5582 := 1])"
proof -
  have "launch 1 (kernIdentifyCellStartEnd 2 [5577, 5582])
     (replicate 10648 (- 1), replicate 10648 (- 1)) =
     for_loop 0 2 (kernIdentifyCellStartEnd 2 [5577, 5582])
     (replicate 10648 (- 1), replicate 10648 (- 1))"
    by (rule launch_guarded) (auto simp: kernIdentifyCellStartEnd_def blockSize_def)
  also have "\<dots> = Some ((replicate 10648 (- 1))[5577 := 0, 5582 := 1],
                          (replicate 10648 (- 1))[5582 := 1])"
    by (simp add: for_loop.simps kernIdentifyCellStartEnd_def rd_def wr_def)
  finally show ?thesis .
qed

lemma crossed_sorted_copy:
  "launch 1 (kernSortPosVel [1, 0] 2 [Vec3 50 1 1, Vec3 1 1 1]
       [Vec3 (1 / 2) 0 0, Vec3 (1 / 4) 0 0])
     ([Vec3 0 0 0, Vec3 0 0 0], [Vec3 0 0 0, Vec3 0 0 0]) =
   Some ([Vec3 1 1 1, Vec3 50 1 1], [Vec3 (1 / 4) 0 0, Vec3 (1 / 2) 0 0])"
proof -
  let ?k = "kernSortPosVel [1, 0] 2 [Vec3 50 1 1, Vec3 1 1 1]
       [Vec3 (1 / 2) 0 0, Vec3 (1 / 4) 0 0]"
  have "launch 1 ?k ([Vec3 0 0 0, Vec3 0 0 0], [Vec3 0 0 0, Vec3 0 0 0]) =
        for_loop 0 2 ?k ([Vec3 0 0 0, Vec3 0 0 0], [Vec3 0 0 0, Vec3 0 0 0])"
    by (rule launch_guarded) (auto simp: kernSortPosVel_def blockSize_def)
  also have "\<dots> = Some ([Vec3 1 1 1, Vec3 50 1 1], [Vec3 (1 / 4) 0 0, Vec3 (1 / 2) 0 0])"
    by (simp add: for_loop.simps kernSortPosVel_def rd_def wr_def
        cong: bind_weak_cong for_loop_weak_cong)
  finally show ?thesis .
qed

lemma crossed_coherent_0:
  "updateVelNeighborSearch 2 22 (Vec3 (- 110) (- 110) (- 110)) (1 / 10) 10
     ((replicate 10648 (- 1))[5577 := 0, 5582 := 1]) ((replicate 10648 (- 1))[5582 := 1]) None
     [Vec3 1 1 1, Vec3 50 1 1] [Vec3 (1 / 4) 0 0, Vec3 (1 / 2) 0 0] 0 [a, b] =
   Some [Vec3 (1 / 4) 0 0, b]"
  by (simp add: search_ev vec_ev cong: bind_weak_cong for_loop_weak_cong Let_weak_cong)

lemma crossed_coherent_1:
  "updateVelNeighborSearch 2 22 (Vec3 (- 110) (- 110) (- 110)) (1 / 10) 10
     ((replicate 10648 (- 1))[5577 := 0, 5582 := 1]) ((replicate 10648 (- 1))[5582 := 1]) None
     [Vec3 1 1 1, Vec3 50 1 1] [Vec3 (1 / 4) 0 0, Vec3 (1 / 2) 0 0] 1 [a, b] =
   Some [a, Vec3 (1 / 2) 0 0]"
  by (simp add: search_ev vec_ev cong: bind_weak_cong for_loop_weak_cong Let_weak_cong)

lemma grid_ready_crossed_boids: "grid_ready crossed_boids"
proof -
  have "list_all (ranges_ok 2 (replicate 10648 (- 1)) (replicate 10648 (- 1))) [2 ..< 10648]"
    unfolding list_all_iff by (simp add: ranges_ok_def del: upt_rec_numeral)
  then show ?thesis
    by (simp add: grid_ready_def sized_def vec_sized_def crossed_boids_def two_boids_def
      posToGridIndex_def posToGrid_eq cell_coord_def gridIndex3Dto1D_def gridOOB_def
      del: upt_rec_numeral)
qed

lemma crossed_coherent_velocities:
  "launch 1 (kernUpdateVelNeighborSearchCoherent 2 22 (Vec3 (- 110) (- 110) (- 110)) (1 / 10) 10
     ((replicate 10648 (- 1))[5577 := 0, 5582 := 1]) ((replicate 10648 (- 1))[5582 := 1])
     [Vec3 1 1 1, Vec3 50 1 1] [Vec3 (1 / 4) 0 0, Vec3 (1 / 2) 0 0]) [Vec3 0 0 0, Vec3 0 0 0] =
   Some [Vec3 (1 / 4) 0 0, Vec3 (1 / 2) 0 0]"
proof -
  let ?k = "kernUpdateVelNeighborSearchCoherent 2 22 (Vec3 (- 110) (- 110) (- 110)) (1 / 10) 10
     ((replicate 10648 (- 1))[5577 := 0, 5582 := 1]) ((replicate 10648 (- 1))[5582 := 1])
     [Vec3 1 1 1, Vec3 50 1 1] [Vec3 (1 / 4) 0 0, Vec3 (1 / 2) 0 0]"
  have "launch 1 ?k [Vec3 0 0 0, Vec3 0 0 0] = for_loop 0 2 ?k [Vec3 0 0 0, Vec3 0 0 0]"
    by (rule launch_guarded)
      (auto simp: kernUpdateVelNeighborSearchCoherent_def updateVelNeighborSearch_def
        blockSize_def)
  also have "\<dots> = Some [Vec3 (1 / 4) 0 0, Vec3 (1 / 2) 0 0]"
    by (simp add: for_loop.simps kernUpdateVelNeighborSearchCoherent_def
        crossed_coherent_0 crossed_coherent_1 cong: for_loop_weak_cong)
  finally show ?thesis .
qed

lemma crossed_positions:
  "launch 1 (kernUpdatePos 2 2 [Vec3 (1 / 4) 0 0, Vec3 (1 / 2) 0 0]) [Vec3 1 1 1, Vec3 50 1 1] =
     Some [Vec3 (3 / 2) 1 1, Vec3 51 1 1]"
  using kernUpdatePos_launch [of 2 "[Vec3 1 1 1, Vec3 50 1 1]"
      "[Vec3 (1 / 4) 0 0, Vec3 (1 / 2) 0 0]" 2]
  by (simp add: fullBlocks_2' upt_0_2 integrate_def wrap_coord_def scene_scale_def vec_ev
      del: upt_rec_numeral)

lemma crossed_coherent:
  "\<exists>st'. stepSimulationCoherentGrid insort_by_key 2 crossed_boids = Some st' \<and>
         mem (dev_particleArrayIndices st') = [1, 0] \<and>
         mem (dev_particleGridIndices st') = [5577, 5582] \<and>
         mem (dev_vel1 st') = [Vec3 (1 / 4) 0 0, Vec3 (1 / 2) 0 0] \<and>
         mem (dev_pos st') = [Vec3 (3 / 2) 1 1, Vec3 51 1 1]"
  unfolding stepSimulationCoherentGrid_def crossed_boids_def two_boids_def
  by (simp add: Let_def fullBlocks_2 fullBlocks_2' fullGrids_22' crossed_indices crossed_sort
      two_boids_reset' crossed_cells crossed_sorted_copy crossed_coherent_velocities
      crossed_positions upd_def cong: bind_weak_cong Let_weak_cong)

lemma coherent_step_slots:
  assumes sbk: "sorts_by_key sbk" and sz: "sized st"
    and run: "stepSimulationCoherentGrid sbk dt st = Some st'"
  shows "\<exists>st''. stepSimulationScatteredGrid sbk dt st = Some st'' \<and>
           mem (dev_particleArrayIndices st'') = mem (dev_particleArrayIndices st') \<and>
           mset (mem (dev_particleArrayIndices st')) = mset (map int [0 ..< nat (numObjects st)]) \<and>
           length (mem (dev_pos st')) = nat (numObjects st) \<and>
           length (mem (dev_vel1 st')) = nat (numObjects st) \<and>
           sorted (mem (dev_particleGridIndices st')) \<and>
           list_all (\<lambda>k.
               mem (dev_particleGridIndices st') ! k =
                 posToGridIndex (mem (dev_pos st) ! nat (mem (dev_particleArrayIndices st') ! k))
                   (gridMinimum st) (gridInverseCellWidth st) (gridSideCount st) \<and>
               mem (dev_pos st') ! k =
                 integrate (mem (dev_pos st) ! nat (mem (dev_particleArrayIndices st') ! k))
                   (mem (dev_vel1 st') ! k) dt \<and>
               mem (dev_pos st') ! k =
                 mem (dev_pos st'') ! nat (mem (dev_particleArrayIndices st') ! k) \<and>
               mem (dev_vel1 st') ! k =
                 mem (dev_vel1 st'') ! nat (mem (dev_particleArrayIndices st') ! k))
             [0 ..< nat (numObjects st)] \<and>
           mset (zip (mem (dev_pos st')) (mem (dev_vel1 st'))) =
             mset (zip (mem (dev_pos st'')) (mem (dev_vel1 st'')))"
proof -
  let ?N = "numObjects st"
  let ?n = "nat ?N"
  let ?B = "c_div (?N + blockSize - 1) blockSize"
  let ?pos = "mem (dev_pos st)"
  let ?vel = "mem (dev_vel1 st)"
  from sz have N: "0 \<le> ?N"
    and lpos: "length ?pos = ?n" and lvel: "length ?vel = ?n"
    and lv2: "length (mem (dev_vel2 st)) = ?n"
    and lsp: "length (mem (dev_sortedPos st)) = ?n"
    and lsv: "length (mem (dev_sortedVel st)) = ?n"
    unfolding sized_def vec_sized_def by blast+
  from stepSimulationCoherentGrid_phases [OF run]
  obtain bg srt vel2c posc where
    bg: "build_grid sbk st = Some bg"
    and s: "launch ?B (kernSortPosVel (fst bg) ?N ?pos ?vel)
              (mem (dev_sortedPos st), mem (dev_sortedVel st)) = Some srt"
    and v: "launch ?B (kernUpdateVelNeighborSearchCoherent ?N (gridSideCount st) (gridMinimum st)
              (gridInverseCellWidth st) (gridCellWidth st) (fst (snd (snd bg)))
              (snd (snd (snd bg))) (fst srt) (snd srt)) (mem (dev_vel2 st)) = Some vel2c"
    and p: "launch ?B (kernUpdatePos ?N dt vel2c) (fst srt) = Some posc"
    and st': "mem (dev_pos st') = posc" "mem (dev_vel1 st') = vel2c"
      "mem (dev_particleArrayIndices st') = fst bg"
      "mem (dev_particleGridIndices st') = fst (snd bg)"
    by blast
  define perm where "perm = fst bg"
  define keys where "keys = fst (snd bg)"
  define starts where "starts = fst (snd (snd bg))"
  define ends where "ends = snd (snd (snd bg))"
  have bg': "build_grid sbk st = Some (perm, keys, starts, ends)"
    using bg by (simp add: perm_def keys_def starts_def ends_def)
  have pm: "mset perm = mset (map int [0 ..< ?n])"
    using sbk sz bg' by (rule build_grid_perm)
  note pf = perm_facts [OF pm]
  from build_grid_keys [OF sbk sz bg']
  have sk: "sorted keys"
    and ky: "\<And>k. k < ?n \<Longrightarrow> keys ! k = posToGridIndex (?pos ! nat (perm ! k))
               (gridMinimum st) (gridInverseCellWidth st) (gridSideCount st)"
    by simp_all
  define sp where "sp = map (\<lambda>k. ?pos ! nat (perm ! k)) [0 ..< ?n]"
  define sv where "sv = map (\<lambda>k. ?vel ! nat (perm ! k)) [0 ..< ?n]"
  have "launch ?B (kernSortPosVel perm ?N ?pos ?vel)
          (mem (dev_sortedPos st), mem (dev_sortedVel st)) = Some (sp, sv)"
    unfolding sp_def sv_def using N lsp lsv pf(1) pf(3) lpos lvel
    by (intro kernSortPosVel_launch) simp_all
  with s have srt: "srt = (sp, sv)" by (simp add: perm_def)
  have lsp': "length sp = ?n" and lsv': "length sv = ?n" by (simp_all add: sp_def sv_def)
  \<comment> \<open>the coherent search\<close>
  have kc: "kernUpdateVelNeighborSearchCoherent ?N (gridSideCount st) (gridMinimum st)
              (gridInverseCellWidth st) (gridCellWidth st) starts ends sp sv =
            updateVelNeighborSearch ?N (gridSideCount st) (gridMinimum st)
              (gridInverseCellWidth st) (gridCellWidth st) starts ends None sp sv"
    by (intro ext) (simp add: kernUpdateVelNeighborSearchCoherent_def)
  from v have v': "launch ?B (updateVelNeighborSearch ?N (gridSideCount st) (gridMinimum st)
              (gridInverseCellWidth st) (gridCellWidth st) starts ends None sp sv)
              (mem (dev_vel2 st)) = Some vel2c"
    by (simp add: srt starts_def ends_def kc [unfolded starts_def ends_def])
  from search_launch_SomeD [OF v' N]
  have lc: "length vel2c = ?n"
    and tc: "\<And>k. 0 \<le> k \<Longrightarrow> k < ?N \<Longrightarrow>
          thread_velocity ?N (gridSideCount st) (gridMinimum st) (gridInverseCellWidth st)
            starts ends None sp sv k = Some (vel2c ! nat k)"
    using lv2 by simp_all
  \<comment> \<open>the scattered search\<close>
  have ts: "thread_velocity ?N (gridSideCount st) (gridMinimum st) (gridInverseCellWidth st)
              starts ends (Some perm) ?pos ?vel (perm ! k) = Some (vel2c ! k)" if "k < ?n" for k
  proof -
    have "thread_velocity ?N (gridSideCount st) (gridMinimum st) (gridInverseCellWidth st)
              starts ends None sp sv (int k) =
          thread_velocity ?N (gridSideCount st) (gridMinimum st) (gridInverseCellWidth st)
              starts ends (Some perm) ?pos ?vel (perm ! k)"
      using pf(1) lpos lvel pf(2) pf(3) sp_def sv_def that by (rule thread_velocity_sorted)
    moreover have "thread_velocity ?N (gridSideCount st) (gridMinimum st)
        (gridInverseCellWidth st) starts ends None sp sv (int k) = Some (vel2c ! nat (int k))"
      using that by (intro tc) simp_all
    ultimately show ?thesis by simp
  qed
  define f where "f a = the (thread_velocity ?N (gridSideCount st) (gridMinimum st)
      (gridInverseCellWidth st) starts ends (Some perm) ?pos ?vel (int a))" for a
  have fk: "f (nat (perm ! k)) = vel2c ! k" if "k < ?n" for k
  proof -
    from pf(3) that have "0 \<le> perm ! k" by simp
    then show ?thesis using ts [OF that] by (simp add: f_def)
  qed
  have tf: "\<forall>a < ?n. thread_velocity ?N (gridSideCount st) (gridMinimum st)
      (gridInverseCellWidth st) starts ends (Some perm) ?pos ?vel (int a) = Some (f a)"
  proof (intro allI impI)
    fix a assume "a < ?n"
    with pf(4) obtain k where k: "k < ?n" "perm ! k = int a" by blast
    from ts [OF k(1)] show "thread_velocity ?N (gridSideCount st) (gridMinimum st)
      (gridInverseCellWidth st) starts ends (Some perm) ?pos ?vel (int a) = Some (f a)"
      unfolding k(2) by (simp add: f_def)
  qed
  define vel2s where "vel2s = map f [0 ..< ?n]"
  have ks: "kernUpdateVelNeighborSearchScattered ?N (gridSideCount st) (gridMinimum st)
              (gridInverseCellWidth st) (gridCellWidth st) starts ends perm ?pos ?vel =
            updateVelNeighborSearch ?N (gridSideCount st) (gridMinimum st)
              (gridInverseCellWidth st) (gridCellWidth st) starts ends (Some perm) ?pos ?vel"
    by (intro ext) (simp add: kernUpdateVelNeighborSearchScattered_def)
  have vs: "launch ?B (kernUpdateVelNeighborSearchScattered ?N (gridSideCount st) (gridMinimum st)
              (gridInverseCellWidth st) (gridCellWidth st) starts ends perm ?pos ?vel)
              (mem (dev_vel2 st)) = Some vel2s"
    unfolding ks vel2s_def using N lv2 tf by (rule search_launch_total)
  \<comment> \<open>the two integrations\<close>
  define poss where "poss = map (\<lambda>j. integrate (?pos ! j) (vel2s ! j) dt) [0 ..< ?n]"
  have ps: "launch ?B (kernUpdatePos ?N dt vel2s) ?pos = Some poss"
    unfolding poss_def using N lpos by (rule kernUpdatePos_launch) (simp add: vel2s_def)
  have "launch ?B (kernUpdatePos ?N dt vel2c) sp =
          Some (map (\<lambda>j. integrate (sp ! j) (vel2c ! j) dt) [0 ..< ?n])"
    using N lsp' lc by (rule kernUpdatePos_launch)
  with p have pc: "posc = map (\<lambda>j. integrate (sp ! j) (vel2c ! j) dt) [0 ..< ?n]"
    by (simp add: srt)
  \<comment> \<open>the scattered step\<close>
  define st'' where "st'' = st\<lparr>dev_particleArrayIndices := upd (dev_particleArrayIndices st) perm,
              dev_particleGridIndices := upd (dev_particleGridIndices st) keys,
              dev_gridCellStartIndices := upd (dev_gridCellStartIndices st) starts,
              dev_gridCellEndIndices := upd (dev_gridCellEndIndices st) ends,
              dev_pos := upd (dev_pos st) poss,
              dev_vel1 := upd (dev_vel2 st) vel2s,
              dev_vel2 := dev_vel1 st\<rparr>"
  have sc: "stepSimulationScatteredGrid sbk dt st = Some st''"
    unfolding stepSimulationScatteredGrid_unfold bg' by (simp add: vs ps st''_def)
  have m'': "mem (dev_pos st'') = poss" "mem (dev_vel1 st'') = vel2s"
    "mem (dev_particleArrayIndices st'') = perm"
    by (simp_all add: st''_def upd_def)
  have lposc: "length posc = ?n" and lposs: "length poss = ?n" and lvs: "length vel2s = ?n"
    by (simp_all add: pc poss_def vel2s_def)
  have slot: "keys ! k = posToGridIndex (?pos ! nat (perm ! k))
                (gridMinimum st) (gridInverseCellWidth st) (gridSideCount st) \<and>
              posc ! k = integrate (?pos ! nat (perm ! k)) (vel2c ! k) dt \<and>
              posc ! k = poss ! nat (perm ! k) \<and> vel2c ! k = vel2s ! nat (perm ! k)"
    if "k < ?n" for k
  proof -
    from pf(3) that have b: "0 \<le> perm ! k" "perm ! k < int ?n" by simp_all
    then have a: "nat (perm ! k) < ?n" using N by auto
    have 1: "posc ! k = integrate (?pos ! nat (perm ! k)) (vel2c ! k) dt"
      using that by (simp add: pc sp_def)
    have 2: "vel2s ! nat (perm ! k) = vel2c ! k"
      using a fk [OF that] by (simp add: vel2s_def)
    have 3: "poss ! nat (perm ! k) = integrate (?pos ! nat (perm ! k)) (vel2c ! k) dt"
      using a 2 by (simp add: poss_def)
    from 1 2 3 ky [OF that] show ?thesis by simp
  qed
  have zs: "mset (zip posc vel2c) = mset (zip poss vel2s)"
    using pm
  proof (rule perm_image_mset)
    show "length (zip posc vel2c) = ?n" using lposc lc by simp
    show "length (zip poss vel2s) = ?n" using lposs lvs by simp
    show "\<forall>k < ?n. zip posc vel2c ! k = zip poss vel2s ! nat (perm ! k)"
    proof (intro allI impI)
      fix k assume k: "k < ?n"
      from pf(3) k have "0 \<le> perm ! k" "perm ! k < int ?n" by simp_all
      then have a: "nat (perm ! k) < ?n" using N by auto
      have 1: "zip posc vel2c ! k = (posc ! k, vel2c ! k)"
        using k lposc lc by simp
      have 2: "zip poss vel2s ! nat (perm ! k) = (poss ! nat (perm ! k), vel2s ! nat (perm ! k))"
        using a lposs lvs by simp
      from slot [OF k] show "zip posc vel2c ! k = zip poss vel2s ! nat (perm ! k)"
        unfolding 1 2 by blast
    qed
  qed
  have sl: "list_all (\<lambda>k. keys ! k = posToGridIndex (?pos ! nat (perm ! k))
                (gridMinimum st) (gridInverseCellWidth st) (gridSideCount st) \<and>
              posc ! k = integrate (?pos ! nat (perm ! k)) (vel2c ! k) dt \<and>
              posc ! k = poss ! nat (perm ! k) \<and> vel2c ! k = vel2s ! nat (perm ! k))
          [0 ..< ?n]"
    unfolding list_all_iff
  proof (intro ballI)
    fix k assume "k \<in> set [0 ..< ?n]"
    then have "k < ?n" by simp
    then show "keys ! k = posToGridIndex (?pos ! nat (perm ! k))
                (gridMinimum st) (gridInverseCellWidth st) (gridSideCount st) \<and>
              posc ! k = integrate (?pos ! nat (perm ! k)) (vel2c ! k) dt \<and>
              posc ! k = poss ! nat (perm ! k) \<and> vel2c ! k = vel2s ! nat (perm ! k)"
      by (rule slot)
  qed
  show ?thesis
    unfolding st' perm_def [symmetric] keys_def [symmetric]
    by (rule exI [of _ st'']) (simp only: m'' sc pm lposc lc zs sl sk simp_thms)
qed


text \<open>
  Claim C10. A coherent-grid step from a state with buffers of the right size, with a
  sorting routine that keeps the library's promise, leaves the current buffers in the
  order of the sorted permutation \<open>particleArrayIndices\<close> of this step: the keys are
  sorted and key \<open>k\<close> is the cell of the old position of agent
  \<open>particleArrayIndices[k]\<close>; slot \<open>k\<close> of the new position buffer is the old position
  of that agent integrated with the velocity in slot \<open>k\<close> of the new velocity buffer;
  the scattered-grid step from the same state ends as well, with the same permutation,
  and gives agent \<open>particleArrayIndices[k]\<close> exactly the position and velocity of slot
  \<open>k\<close>, so both steps leave the same multiset of (position, velocity) pairs. The step
  runs to its end from every state that is \<open>grid_ready\<close>: no more agents than cells,
  every position inside the grid, and no cell entry beyond the first \<open>numObjects\<close>
  that would open a range outside the agents.
\<close>

theorem coherent_step_permutes:
  assumes sbk: "sorts_by_key sbk" and sz: "sized st"
  shows "(grid_ready st \<longrightarrow> (\<exists>st'. stepSimulationCoherentGrid sbk dt st = Some st')) \<and>
         (\<forall>st'. stepSimulationCoherentGrid sbk dt st = Some st' \<longrightarrow>
           (\<exists>st''. stepSimulationScatteredGrid sbk dt st = Some st'' \<and>
             mem (dev_particleArrayIndices st'') = mem (dev_particleArrayIndices st') \<and>
             mset (mem (dev_particleArrayIndices st')) = mset (map int [0 ..< nat (numObjects st)]) \<and>
             length (mem (dev_pos st')) = nat (numObjects st) \<and>
             length (mem (dev_vel1 st')) = nat (numObjects st) \<and>
             sorted (mem (dev_particleGridIndices st')) \<and>
             list_all (\<lambda>k.
                 mem (dev_particleGridIndices st') ! k =
                   posToGridIndex (mem (dev_pos st) ! nat (mem (dev_particleArrayIndices st') ! k))
                     (gridMinimum st) (gridInverseCellWidth st) (gridSideCount st) \<and>
                 mem (dev_pos st') ! k =
                   integrate (mem (dev_pos st) ! nat (mem (dev_particleArrayIndices st') ! k))
                     (mem (dev_vel1 st') ! k) dt \<and>
                 mem (dev_pos st') ! k =
                   mem (dev_pos st'') ! nat (mem (dev_particleArrayIndices st') ! k) \<and>
                 mem (dev_vel1 st') ! k =
                   mem (dev_vel1 st'') ! nat (mem (dev_particleArrayIndices st') ! k))
               [0 ..< nat (numObjects st)] \<and>
             mset (zip (mem (dev_pos st')) (mem (dev_vel1 st'))) =
               mset (zip (mem (dev_pos st'')) (mem (dev_vel1 st'')))))"
proof (intro conjI allI impI)
  assume "grid_ready st"
  with sbk show "\<exists>st'. stepSimulationCoherentGrid sbk dt st = Some st'"
    by (rule stepSimulationCoherentGrid_total)
next
  fix st' assume "stepSimulationCoherentGrid sbk dt st = Some st'"
  with sbk sz show "\<exists>st''. stepSimulationScatteredGrid sbk dt st = Some st'' \<and>
             mem (dev_particleArrayIndices st'') = mem (dev_particleArrayIndices st') \<and>
             mset (mem (dev_particleArrayIndices st')) = mset (map int [0 ..< nat (numObjects st)]) \<and>
             length (mem (dev_pos st')) = nat (numObjects st) \<and>
             length (mem (dev_vel1 st')) = nat (numObjects st) \<and>
             sorted (mem (dev_particleGridIndices st')) \<and>
             list_all (\<lambda>k.
                 mem (dev_particleGridIndices st') ! k =
                   posToGridIndex (mem (dev_pos st) ! nat (mem (dev_particleArrayIndices st') ! k))
                     (gridMinimum st) (gridInverseCellWidth st) (gridSideCount st) \<and>
                 mem (dev_pos st') ! k =
                   integrate (mem (dev_pos st) ! nat (mem (dev_particleArrayIndices st') ! k))
                     (mem (dev_vel1 st') ! k) dt \<and>
                 mem (dev_pos st') ! k =
                   mem (dev_pos st'') ! nat (mem (dev_particleArrayIndices st') ! k) \<and>
                 mem (dev_vel1 st') ! k =
                   mem (dev_vel1 st'') ! nat (mem (dev_particleArrayIndices st') ! k))
               [0 ..< nat (numObjects st)] \<and>
             mset (zip (mem (dev_pos st')) (mem (dev_vel1 st'))) =
               mset (zip (mem (dev_pos st'')) (mem (dev_vel1 st'')))"
    by (rule coherent_step_slots)
qed

lemma sized_crossed_boids: "sized crossed_boids"
  by (simp add: sized_def vec_sized_def crossed_boids_def two_boids_def)

theorem coherent_step_permutes_witness:
  "\<exists>st st' st''.
     initSimulation crossed_draw crossed_junk (\<lambda>_ _. - 1) 2 = Some st \<and>
     mem (dev_pos st) = [Vec3 50 1 1, Vec3 1 1 1] \<and>
     stepSimulationCoherentGrid insort_by_key 2 st = Some st' \<and>
     stepSimulationScatteredGrid insort_by_key 2 st = Some st'' \<and>
     mem (dev_particleArrayIndices st') = [1, 0] \<and>
     mem (dev_particleGridIndices st') = [5577, 5582] \<and>
     mem (dev_pos st') = [Vec3 (3 / 2) 1 1, Vec3 51 1 1] \<and>
     mem (dev_vel1 st') = [Vec3 (1 / 4) 0 0, Vec3 (1 / 2) 0 0] \<and>
     mem (dev_pos st'') ! 0 = Vec3 51 1 1 \<and> mem (dev_pos st'') ! 1 = Vec3 (3 / 2) 1 1 \<and>
     mem (dev_vel1 st'') ! 0 = Vec3 (1 / 2) 0 0 \<and> mem (dev_vel1 st'') ! 1 = Vec3 (1 / 4) 0 0 \<and>
     mset (zip (mem (dev_pos st')) (mem (dev_vel1 st'))) =
       mset (zip (mem (dev_pos st'')) (mem (dev_vel1 st'')))"
proof -
  note t = coherent_step_permutes [OF sorts_by_key_insort sized_crossed_boids, of 2]
  from t grid_ready_crossed_boids obtain st' where
    c: "stepSimulationCoherentGrid insort_by_key 2 crossed_boids = Some st'" by blast
  from crossed_coherent c have
    i: "mem (dev_particleArrayIndices st') = [1, 0]"
    and g: "mem (dev_particleGridIndices st') = [5577, 5582]"
    and v: "mem (dev_vel1 st') = [Vec3 (1 / 4) 0 0, Vec3 (1 / 2) 0 0]"
    and p: "mem (dev_pos st') = [Vec3 (3 / 2) 1 1, Vec3 51 1 1]"
    by auto
  from t c obtain st'' where
    s: "stepSimulationScatteredGrid insort_by_key 2 crossed_boids = Some st''"
    and l: "list_all (\<lambda>k.
               mem (dev_particleGridIndices st') ! k =
                 posToGridIndex (mem (dev_pos crossed_boids) ! nat (mem (dev_particleArrayIndices st') ! k))
                   (gridMinimum crossed_boids) (gridInverseCellWidth crossed_boids)
                   (gridSideCount crossed_boids) \<and>
               mem (dev_pos st') ! k =
                 integrate (mem (dev_pos crossed_boids) ! nat (mem (dev_particleArrayIndices st') ! k))
                   (mem (dev_vel1 st') ! k) 2 \<and>
               mem (dev_pos st') ! k =
                 mem (dev_pos st'') ! nat (mem (dev_particleArrayIndices st') ! k) \<and>
               mem (dev_vel1 st') ! k =
                 mem (dev_vel1 st'') ! nat (mem (dev_particleArrayIndices st') ! k))
             [0 ..< nat (numObjects crossed_boids)]"
    and m: "mset (zip (mem (dev_pos st')) (mem (dev_vel1 st'))) =
            mset (zip (mem (dev_pos st'')) (mem (dev_vel1 st'')))"
    by blast
  have n: "[0 ..< nat (numObjects crossed_boids)] = [0, Suc 0]"
    by (simp add: crossed_boids_def two_boids_def upt_0_2 del: upt_rec_numeral)
  have e: "nat 1 = Suc 0" "nat 0 = 0" by simp_all
  from l have r: "Vec3 51 1 1 = mem (dev_pos st'') ! 0" "Vec3 (3 / 2) 1 1 = mem (dev_pos st'') ! Suc 0"
    "Vec3 (1 / 2) 0 0 = mem (dev_vel1 st'') ! 0" "Vec3 (1 / 4) 0 0 = mem (dev_vel1 st'') ! Suc 0"
    unfolding n i p v list.pred_inject nth_Cons_0 nth_Cons_Suc e by blast+
  have q: "mem (dev_pos st'') ! 0 = Vec3 51 1 1" "mem (dev_pos st'') ! 1 = Vec3 (3 / 2) 1 1"
    "mem (dev_vel1 st'') ! 0 = Vec3 (1 / 2) 0 0" "mem (dev_vel1 st'') ! 1 = Vec3 (1 / 4) 0 0"
    using r [symmetric] by simp_all
  have d: "mem (dev_pos crossed_boids) = [Vec3 50 1 1, Vec3 1 1 1]"
    by (simp add: crossed_boids_def)
  from init_crossed_boids d c s i g p v q m show ?thesis by blast
qed


section \<open>Positions over whole steps\<close>

text \<open>
  In exact arithmetic, for every \<open>N \<ge> 0\<close> and every random source with draws in
  \<open>[- 1, 1]\<close>, \<^verbatim>\<open>initSimulation\<close> returns a state whose positions lie in the scene,
  and after any sequence of steps that runs to its end every coordinate of every
  position is still in \<open>[- scene_scale, scene_scale]\<close>; a sequence of brute-force steps
  always runs to its end. The fresh velocity buffers hold arbitrary reals here. What
  happens when they hold a binary32 value that is no number is the subject of the last
  section.
\<close>

lemma positions_stay_in_scene_exact:
  assumes "0 \<le> N" and "\<forall>seed k. - 1 \<le> ud seed k \<and> ud seed k \<le> 1"
  shows "\<exists>st. initSimulation ud jv ji N = Some st \<and>
           length (mem (dev_pos st)) = nat N \<and>
           list_all in_scene (mem (dev_pos st)) \<and>
           (\<forall>prog st'. run_steps sbk prog st = Some st' \<longrightarrow>
              length (mem (dev_pos st')) = nat N \<and> list_all in_scene (mem (dev_pos st'))) \<and>
           (\<forall>prog. list_all (\<lambda>sd. fst sd = BruteForce) prog \<longrightarrow>
              (\<exists>st'. run_steps sbk prog st = Some st'))"
proof -
  obtain n where n: "N = int n" using assms(1) by (metis nat_0_le)
  obtain st where st: "initSimulation ud jv ji N = Some st"
    unfolding n initSimulation_eq by blast
  from initSimulation_sized [OF st [unfolded n]]
  have sz: "sized st" and no: "numObjects st = int n"
    and ps: "mem (dev_pos st) = init_positions ud n" by blast+
  have vs: "vec_sized st" using sz by (simp add: sized_def)
  have i0: "list_all in_scene (mem (dev_pos st))"
    unfolding ps using assms(2) by (rule init_positions_in_scene)
  have l0: "length (mem (dev_pos st)) = nat N"
    using vs no n by (simp add: vec_sized_def)
  have run: "length (mem (dev_pos st')) = nat N \<and> list_all in_scene (mem (dev_pos st'))"
    if "run_steps sbk prog st = Some st'" for prog st'
  proof -
    from run_steps_inv [OF vs i0 that]
    have "vec_sized st'" "numObjects st' = numObjects st" "list_all in_scene (mem (dev_pos st'))"
      by blast+
    then show ?thesis using no n by (simp add: vec_sized_def)
  qed
  have tot: "\<exists>st'. run_steps sbk prog st = Some st'"
    if "list_all (\<lambda>sd. fst sd = BruteForce) prog" for prog
    using vs that by (rule run_steps_brute_total)
  from st l0 i0 run tot show ?thesis by blast
qed

lemma kernSortPosVel_launch_SomeD:
  assumes run: "launch (c_div (N + blockSize - 1) blockSize) (kernSortPosVel perm N pos vel) bufs =
                  Some bufs'"
    and N: "0 \<le> N"
  shows "\<forall>k. 0 \<le> k \<and> k < N \<longrightarrow> (\<exists>i < length pos. fst bufs' ! nat k = pos ! i)"
proof -
  let ?P = "\<lambda>k t. \<forall>j. 0 \<le> j \<and> j < k \<longrightarrow> (\<exists>i < length pos. fst t ! nat j = pos ! i)"
  have g: "\<And>k t. N \<le> k \<Longrightarrow> kernSortPosVel perm N pos vel k t = Some t"
    by (simp add: kernSortPosVel_def split_def)
  have run': "for_loop 0 N (kernSortPosVel perm N pos vel) bufs = Some bufs'"
    using run launch_full [of N "kernSortPosVel perm N pos vel" bufs] g N by simp
  have "?P N bufs'"
  proof (rule for_loop_inv [OF run' N, where P = ?P])
    show "?P 0 bufs" by auto
  next
    fix k t t'
    assume k: "0 \<le> k" "k < N" and P: "?P k t"
      and b: "kernSortPosVel perm N pos vel k t = Some t'"
    from b k obtain old p sp where o: "rd perm k = Some old" and p: "rd pos old = Some p"
      and w: "wr (fst t) k p = Some sp" and t': "fst t' = sp"
      by (auto simp: kernSortPosVel_def split_def split: bind_splits)
    from rd_SomeD [OF p] have i: "nat old < length pos" "p = pos ! nat old" by auto
    from wr_SomeD [OF w] have s: "k < int (length (fst t))" "sp = (fst t)[nat k := p]" by simp_all
    show "?P (k + 1) t'"
    proof (intro allI impI)
      fix j assume j: "0 \<le> j \<and> j < k + 1"
      show "\<exists>i < length pos. fst t' ! nat j = pos ! i"
      proof (cases "j = k")
        case True
        then have "fst t' ! nat j = pos ! nat old" using t' s i k by simp
        then show ?thesis using i(1) by blast
      next
        case False
        then have "j < k" using j by simp
        moreover have "nat j \<noteq> nat k" using False j k by linarith
        ultimately show ?thesis using P j t' s by simp
      qed
    qed
  qed
  then show ?thesis by simp
qed

lemma step_positions:
  assumes vs: "vec_sized st" and run: "step sbk strat dt st = Some st'"
    and j: "j < nat (numObjects st)"
  shows "(\<exists>i < length (mem (dev_pos st)).
            mem (dev_pos st') ! j = integrate (mem (dev_pos st) ! i) (mem (dev_vel1 st') ! j) dt) \<and>
         (strat \<noteq> CoherentGrid \<longrightarrow>
            mem (dev_pos st') ! j = integrate (mem (dev_pos st) ! j) (mem (dev_vel1 st') ! j) dt)"
proof -
  let ?N = "numObjects st"
  let ?B = "c_div (?N + blockSize - 1) blockSize"
  from vs have N: "0 \<le> ?N" and l: "length (mem (dev_pos st)) = nat ?N"
    unfolding vec_sized_def by blast+
  have jk: "0 \<le> int j \<and> int j < ?N" using j by simp
  have same: "mem (dev_pos st') ! j = integrate (mem (dev_pos st) ! j) (mem (dev_vel1 st') ! j) dt"
    if "strat \<noteq> CoherentGrid"
  proof (cases strat)
    case BruteForce
    then have "st' = naive_result dt st" using run stepSimulationNaive_eq [OF vs, of dt] by simp
    then show ?thesis using j by (simp add: naive_result_def Let_def upd_def)
  next
    case ScatteredGrid
    then have "stepSimulationScatteredGrid sbk dt st = Some st'" using run by simp
    from stepSimulationScatteredGrid_SomeD [OF this]
    obtain vel2 pos where p: "launch ?B (kernUpdatePos ?N dt vel2) (mem (dev_pos st)) = Some pos"
      and st': "dev_pos st' = upd (dev_pos st) pos" "dev_vel1 st' = upd (dev_vel2 st) vel2"
      by blast
    from kernUpdatePos_launch_SomeD [OF p N] jk
    have "pos ! nat (int j) = integrate (mem (dev_pos st) ! nat (int j)) (vel2 ! nat (int j)) dt"
      by blast
    then show ?thesis by (simp add: st' upd_def)
  next
    case CoherentGrid
    with that show ?thesis by simp
  qed
  have ex: "\<exists>i < length (mem (dev_pos st)).
      mem (dev_pos st') ! j = integrate (mem (dev_pos st) ! i) (mem (dev_vel1 st') ! j) dt"
  proof (cases "strat = CoherentGrid")
    case False
    from same [OF this] j l show ?thesis by auto
  next
    case True
    then have "stepSimulationCoherentGrid sbk dt st = Some st'" using run by simp
    from stepSimulationCoherentGrid_SomeD [OF this]
    obtain indices srt vel2 pos where
      s: "launch ?B (kernSortPosVel indices ?N (mem (dev_pos st)) (mem (dev_vel1 st)))
            (mem (dev_sortedPos st), mem (dev_sortedVel st)) = Some srt"
      and p: "launch ?B (kernUpdatePos ?N dt vel2) (fst srt) = Some pos"
      and st': "dev_pos st' = upd (dev_sortedPos st) pos" "dev_vel1 st' = upd (dev_vel2 st) vel2"
      by blast
    from kernSortPosVel_launch_SomeD [OF s N] jk
    obtain i where i: "i < length (mem (dev_pos st))" "fst srt ! nat (int j) = mem (dev_pos st) ! i"
      by blast
    from kernUpdatePos_launch_SomeD [OF p N] jk
    have "pos ! nat (int j) = integrate (fst srt ! nat (int j)) (vel2 ! nat (int j)) dt"
      by blast
    then have "mem (dev_pos st') ! j = integrate (mem (dev_pos st) ! i) (mem (dev_vel1 st') ! j) dt"
      using i(2) by (simp add: st' upd_def)
    with i(1) show ?thesis by blast
  qed
  from ex same show ?thesis by blast
qed

text \<open>
  Claim C7. The thread of agent \<open>index\<close> stores \<open>position + velocity * dt\<close> with every
  axis wrapped on its own: a coordinate above \<open>scene_scale\<close> becomes exactly
  \<open>- scene_scale\<close>, one below \<open>- scene_scale\<close> becomes exactly \<open>scene_scale\<close>, and
  one in between is kept. In a step of any strategy that runs to its end, slot \<open>j\<close> of
  the new positions is a position of before the step integrated with slot \<open>j\<close> of the
  velocities that the same step has produced; in the brute-force and the scattered step
  it is the position of slot \<open>j\<close> itself.
\<close>

theorem kernUpdatePos_spec:
  "(0 \<le> index \<and> index < N \<and> index < int (length pos) \<and> index < int (length vel) \<longrightarrow>
      kernUpdatePos N dt vel index pos =
        Some (pos[nat index := integrate (pos ! nat index) (vel ! nat index) dt])) \<and>
   (vec_sized st \<and> step sbk strat dt st = Some st' \<and> j < nat (numObjects st) \<longrightarrow>
      (\<exists>i < length (mem (dev_pos st)).
         mem (dev_pos st') ! j = integrate (mem (dev_pos st) ! i) (mem (dev_vel1 st') ! j) dt) \<and>
      (strat \<noteq> CoherentGrid \<longrightarrow>
         mem (dev_pos st') ! j = integrate (mem (dev_pos st) ! j) (mem (dev_vel1 st') ! j) dt)) \<and>
   integrate p v dt = Vec3 (wrap_coord (vx p + vx v * dt)) (wrap_coord (vy p + vy v * dt))
                           (wrap_coord (vz p + vz v * dt)) \<and>
   (c > scene_scale \<longrightarrow> wrap_coord c = - scene_scale) \<and>
   (c < - scene_scale \<longrightarrow> wrap_coord c = scene_scale) \<and>
   (- scene_scale \<le> c \<and> c \<le> scene_scale \<longrightarrow> wrap_coord c = c)"
proof -
  have 1: "kernUpdatePos N dt vel index pos =
        Some (pos[nat index := integrate (pos ! nat index) (vel ! nat index) dt])"
    if "0 \<le> index \<and> index < N \<and> index < int (length pos) \<and> index < int (length vel)"
    using that by (intro kernUpdatePos_thread) simp_all
  have 2: "(\<exists>i < length (mem (dev_pos st)).
         mem (dev_pos st') ! j = integrate (mem (dev_pos st) ! i) (mem (dev_vel1 st') ! j) dt) \<and>
      (strat \<noteq> CoherentGrid \<longrightarrow>
         mem (dev_pos st') ! j = integrate (mem (dev_pos st) ! j) (mem (dev_vel1 st') ! j) dt)"
    if "vec_sized st \<and> step sbk strat dt st = Some st' \<and> j < nat (numObjects st)"
    using that by (intro step_positions) blast+
  have 3: "integrate p v dt = Vec3 (wrap_coord (vx p + vx v * dt)) (wrap_coord (vy p + vy v * dt))
                           (wrap_coord (vz p + vz v * dt))"
    by (simp add: integrate_def smul_def plus_vec3_def)
  have 4: "(c > scene_scale \<longrightarrow> wrap_coord c = - scene_scale) \<and>
   (c < - scene_scale \<longrightarrow> wrap_coord c = scene_scale) \<and>
   (- scene_scale \<le> c \<and> c \<le> scene_scale \<longrightarrow> wrap_coord c = c)"
    by (simp add: wrap_coord_def scene_scale_def)
  from 1 2 3 4 show ?thesis by blast
qed

theorem kernUpdatePos_spec_witness:
  "kernUpdatePos 2 (1 / 2) [Vec3 0 0 0, Vec3 1 (- 1) 0] 1 [Vec3 5 5 5, Vec3 (100 - 1 / 4) (- 100 + 1 / 4) 7]
     = Some [Vec3 5 5 5, Vec3 (- 100) 100 7] \<and>
   (\<exists>st'. step insort_by_key BruteForce (1 / 2) two_boids = Some st' \<and>
      mem (dev_vel1 st') ! 0 = Vec3 (- 9 / 100) 0 0 \<and>
      mem (dev_pos st') ! 0 = Vec3 (191 / 200) 1 1) \<and>
   wrap_coord (100 + 1 / 4) = - 100 \<and> wrap_coord (- 100 - 1 / 4) = 100 \<and> wrap_coord 100 = 100"
proof -
  let ?pos = "[Vec3 5 5 5, Vec3 (100 - 1 / 4) (- 100 + 1 / 4) 7]"
  let ?vel = "[Vec3 0 0 0, Vec3 1 (- 1) 0]"
  from two_boids_naive [of "1 / 2"] obtain st' where
    s: "stepSimulationNaive (1 / 2) two_boids = Some st'"
    and v: "mem (dev_vel1 st') = [Vec3 (- 9 / 100) 0 0, Vec3 (9 / 100) 0 0]" by blast
  have vs: "vec_sized two_boids" using vec_sized_two_boids by (simp add: sized_def)
  have n: "(0::nat) < nat (numObjects two_boids)" by (simp add: two_boids_def)
  have st: "step insort_by_key BruteForce (1 / 2) two_boids = Some st'" using s by simp
  note a = kernUpdatePos_spec [of 1 2 ?pos ?vel "1 / 2" two_boids insort_by_key BruteForce st' 0
      0 0 "100 + 1 / 4"]
  note b = kernUpdatePos_spec [of 1 2 ?pos ?vel "1 / 2" two_boids insort_by_key BruteForce st' 0
      0 0 "- 100 - 1 / 4"]
  note c = kernUpdatePos_spec [of 1 2 ?pos ?vel "1 / 2" two_boids insort_by_key BruteForce st' 0
      0 0 "100"]
  have 1: "kernUpdatePos 2 (1 / 2) ?vel 1 ?pos = Some [Vec3 5 5 5, Vec3 (- 100) 100 7]"
    using a by (simp add: integrate_def wrap_coord_def smul_def plus_vec3_def scene_scale_def)
  have "mem (dev_pos st') ! 0 =
          integrate (mem (dev_pos two_boids) ! 0) (mem (dev_vel1 st') ! 0) (1 / 2)"
    using a vs st n by blast
  then have 2: "mem (dev_pos st') ! 0 = Vec3 (191 / 200) 1 1"
    by (simp add: v two_boids_def integrate_def wrap_coord_def smul_def plus_vec3_def
        scene_scale_def)
  have 3: "wrap_coord (100 + 1 / 4) = - 100" using a by (simp add: scene_scale_def)
  have 4: "wrap_coord (- 100 - 1 / 4) = 100" using b by (simp add: scene_scale_def)
  have 5: "wrap_coord 100 = 100" using c by (simp add: scene_scale_def)
  from 1 2 3 4 5 st v show ?thesis by simp
qed


section \<open>The velocity clamp and the scene bounds in single precision\<close>

lemma pow2_powr: "pow2 k = 2 powr of_int k"
proof (cases "0 \<le> k")
  case True
  then have "(2::real) powr of_int k = 2 powr of_nat (nat k)" by simp
  also have "\<dots> = 2 ^ nat k" by (rule powr_realpow) simp
  finally show ?thesis using True by (simp add: pow2_def)
next
  case False
  then have "(2::real) powr of_int k = 2 powr (- of_nat (nat (- k)))" by simp
  also have "\<dots> = 1 / 2 powr of_nat (nat (- k))" by (simp add: powr_minus_divide)
  also have "(2::real) powr of_nat (nat (- k)) = 2 ^ nat (- k)" by (rule powr_realpow) simp
  finally show ?thesis using False by (simp add: pow2_def)
qed

lemma ulp32_normal:
  assumes "pow2 e \<le> \<bar>x\<bar>" "\<bar>x\<bar> < pow2 (e + 1)" "- 126 \<le> e"
  shows "ulp32 x = pow2 (e - 23)"
proof -
  have "0 < pow2 e" by (simp add: pow2_def)
  with assms(1) have p: "0 < \<bar>x\<bar>" by linarith
  have "\<lfloor>log 2 \<bar>x\<bar>\<rfloor> = e"
    using assms(1,2) p by (subst floor_log_eq_powr_iff) (simp_all add: pow2_powr)
  then show ?thesis using assms(3) by (simp add: ulp32_def)
qed

lemma ulp32_subnormal:
  assumes "x \<noteq> 0" "\<bar>x\<bar> < pow2 (- 126)"
  shows "ulp32 x = pow2 (- 149)"
proof -
  have "log 2 \<bar>x\<bar> < log 2 (pow2 (- 126))" using assms by (subst log_less_cancel_iff) (simp_all add: pow2_def)
  also have "log 2 (pow2 (- 126)) = - 126" unfolding pow2_powr by simp
  finally have "\<lfloor>log 2 \<bar>x\<bar>\<rfloor> < - 126" by linarith
  then show ?thesis by (simp add: ulp32_def max_def)
qed

lemma rnd_0 [simp]: "rnd 0 = Fin 0"
  by (simp add: rnd_def)

lemma round_even_down: "of_int f \<le> q \<Longrightarrow> q < of_int f + 1 / 2 \<Longrightarrow> round_even q = f"
proof -
  assume a: "of_int f \<le> q" "q < of_int f + 1 / 2"
  then have "\<lfloor>q\<rfloor> = f" by (simp add: floor_eq_iff)
  then show ?thesis using a by (simp add: round_even_def)
qed

lemma round_even_up: "of_int f - 1 / 2 < q \<Longrightarrow> q \<le> of_int f \<Longrightarrow> round_even q = f"
proof (cases "q = of_int f")
  case True
  then show ?thesis by (simp add: round_even_def)
next
  case False
  assume a: "of_int f - 1 / 2 < q" "q \<le> of_int f"
  with False have "\<lfloor>q\<rfloor> = f - 1" by (simp add: floor_eq_iff)
  then show ?thesis using a False by (simp add: round_even_def)
qed

lemma rnd_fin:
  assumes "x \<noteq> 0" "ulp32 x = u" "round_even (x / u) = m" "\<bar>of_int m * u\<bar> < 2 ^ 128"
  shows "rnd x = Fin (of_int m * u)"
  using assms by (simp add: rnd_def Let_def)

lemma rnd_inf:
  assumes "0 < x" "ulp32 x = u" "round_even (x / u) = m" "2 ^ 128 \<le> \<bar>of_int m * u\<bar>"
  shows "rnd x = PInf"
  using assms by (simp add: rnd_def Let_def)

lemma rnd_tiny: "rnd (1 / 2 ^ 160) = Fin 0"
proof -
  have u: "ulp32 (1 / 2 ^ 160) = 1 / 2 ^ 149"
    using ulp32_subnormal [of "1 / 2 ^ 160"] by (simp add: pow2_def)
  have "(1 / 2 ^ 160) / (1 / 2 ^ 149) = (1 / 2 ^ 11 :: real)" by simp
  moreover have "round_even (1 / 2 ^ 11) = 0" by (rule round_even_down) simp_all
  ultimately have m: "round_even ((1 / 2 ^ 160) / (1 / 2 ^ 149)) = 0" by simp
  from rnd_fin [OF _ u m] show ?thesis by simp
qed

lemma rnd_small: "rnd (1 / 2 ^ 80) = Fin (1 / 2 ^ 80)"
proof -
  have u: "ulp32 (1 / 2 ^ 80) = 1 / 2 ^ 103"
    using ulp32_normal [of "- 80" "1 / 2 ^ 80"] by (simp add: pow2_def)
  have "(1 / 2 ^ 80) / (1 / 2 ^ 103) = (of_int (2 ^ 23) :: real)" by simp
  moreover have "round_even (of_int (2 ^ 23)) = 2 ^ 23" by (rule round_even_down) simp_all
  ultimately have m: "round_even ((1 / 2 ^ 80) / (1 / 2 ^ 103)) = 2 ^ 23" by simp
  from rnd_fin [OF _ u m] show ?thesis by simp
qed

lemma rnd_large: "rnd (2 ^ 64) = Fin (2 ^ 64)"
proof -
  have u: "ulp32 (2 ^ 64) = 2 ^ 41"
    using ulp32_normal [of 64 "2 ^ 64"] by (simp add: pow2_def)
  have "2 ^ 64 / 2 ^ 41 = (of_int (2 ^ 23) :: real)" by simp
  moreover have "round_even (of_int (2 ^ 23)) = 2 ^ 23" by (rule round_even_down) simp_all
  ultimately have m: "round_even (2 ^ 64 / 2 ^ 41) = 2 ^ 23" by simp
  from rnd_fin [OF _ u m] show ?thesis by simp
qed

lemma rnd_huge: "rnd (2 ^ 128) = PInf"
proof -
  have u: "ulp32 (2 ^ 128) = 2 ^ 105"
    using ulp32_normal [of 128 "2 ^ 128"] by (simp add: pow2_def)
  have "2 ^ 128 / 2 ^ 105 = (of_int (2 ^ 23) :: real)" by simp
  moreover have "round_even (of_int (2 ^ 23)) = 2 ^ 23" by (rule round_even_down) simp_all
  ultimately have m: "round_even (2 ^ 128 / 2 ^ 105) = 2 ^ 23" by simp
  from rnd_inf [OF _ u m] show ?thesis by simp
qed

lemma rnd_hundredth: "rnd (1 / 100) = Fin (10737418 / 2 ^ 30)"
proof -
  have u: "ulp32 (1 / 100) = 1 / 2 ^ 30"
    using ulp32_normal [of "- 7" "1 / 100"] by (simp add: pow2_def)
  have m: "round_even ((1 / 100) / (1 / 2 ^ 30)) = 10737418" by (rule round_even_down) simp_all
  from rnd_fin [OF _ u m] show ?thesis by simp
qed

lemma rnd_tenth: "rnd (1 / 10) = Fin (13421773 / 2 ^ 27)"
proof -
  have u: "ulp32 (1 / 10) = 1 / 2 ^ 27"
    using ulp32_normal [of "- 4" "1 / 10"] by (simp add: pow2_def)
  have m: "round_even ((1 / 10) / (1 / 2 ^ 27)) = 13421773" by (rule round_even_up) simp_all
  from rnd_fin [OF _ u m] show ?thesis by simp
qed

lemma round_even_of_int [simp]: "round_even (of_int m) = m"
  by (simp add: round_even_def)

lemma rnd_of_int:
  assumes "\<bar>k\<bar> < 2 ^ 24"
  shows "rnd (of_int k) = Fin (of_int k)"
proof (cases "k = 0")
  case True
  then show ?thesis by simp
next
  case False
  define x :: real where "x = of_int k"
  define e where "e = \<lfloor>log 2 \<bar>x\<bar>\<rfloor>"
  have "1 \<le> \<bar>k\<bar>" using False by simp
  then have "(1::real) \<le> of_int \<bar>k\<bar>" by (simp only: of_int_1_le_iff)
  then have x1: "1 \<le> \<bar>x\<bar>" by (simp add: x_def)
  have x2: "\<bar>x\<bar> < 2 ^ 24"
  proof -
    have "\<bar>x\<bar> = of_int \<bar>k\<bar>" by (simp add: x_def)
    also have "\<dots> < of_int (2 ^ 24)" using assms by (simp only: of_int_less_iff)
    finally show ?thesis by simp
  qed
  have "0 \<le> log 2 \<bar>x\<bar>" using x1 by simp
  then have e0: "0 \<le> e" by (simp add: e_def)
  have l: "log 2 ((2::real) ^ 24) = real 24" by (rule log_pow_cancel) simp_all
  have "log 2 \<bar>x\<bar> < log 2 (2 ^ 24)" using x1 x2 by (subst log_less_cancel_iff) simp_all
  then have "log 2 \<bar>x\<bar> < 24" unfolding l by simp
  then have e1: "e \<le> 23" unfolding e_def by linarith
  define d where "d = nat (23 - e)"
  have u: "ulp32 x = 1 / 2 ^ d"
  proof (cases "e = 23")
    case True
    then show ?thesis by (simp add: ulp32_def e_def [symmetric] pow2_def d_def)
  next
    case False
    then have "e - 23 < 0" using e1 by simp
    then show ?thesis using e0
      by (simp add: ulp32_def e_def [symmetric] pow2_def d_def max_def)
  qed
  have "x / (1 / 2 ^ d) = of_int (k * 2 ^ d)" by (simp add: x_def)
  then have m: "round_even (x / (1 / 2 ^ d)) = k * 2 ^ d" by (simp only: round_even_of_int)
  have y: "of_int (k * 2 ^ d) * (1 / 2 ^ d) = x" by (simp add: x_def)
  have "x \<noteq> 0" using False by (simp add: x_def)
  moreover have "\<bar>of_int (k * 2 ^ d) * (1 / 2 ^ d)\<bar> < (2 ^ 128 :: real)"
    unfolding y using x2 by simp
  ultimately have "rnd x = Fin (of_int (k * 2 ^ d) * (1 / 2 ^ d))"
    using u m by (intro rnd_fin)
  then show ?thesis unfolding y by (simp add: x_def)
qed

lemma rnd_numeral [simp]:
  "\<bar>numeral n :: int\<bar> < 2 ^ 24 \<Longrightarrow> rnd (numeral n) = Fin (numeral n)"
  "\<bar>numeral n :: int\<bar> < 2 ^ 24 \<Longrightarrow> rnd (- numeral n) = Fin (- numeral n)"
  "rnd 1 = Fin 1"
  using rnd_of_int [of "numeral n"] rnd_of_int [of "- numeral n"] rnd_of_int [of 1] by simp_all

lemma i2f_small [simp]: "\<bar>k\<bar> < 2 ^ 24 \<Longrightarrow> i2f k = Fin (of_int k)"
  by (simp add: i2f_def rnd_of_int)

lemma rnd_half: "rnd (1 / 2) = Fin (1 / 2)"
proof -
  have u: "ulp32 (1 / 2) = 1 / 2 ^ 24"
    using ulp32_normal [of "- 1" "1 / 2"] by (simp add: pow2_def)
  have "(1 / 2) / (1 / 2 ^ 24) = (of_int (2 ^ 23) :: real)" by simp
  then have m: "round_even ((1 / 2) / (1 / 2 ^ 24)) = 2 ^ 23" by (simp only: round_even_of_int)
  from rnd_fin [OF _ u m] show ?thesis by simp
qed

lemma fullBlocks_1: "c_div (1 + blockSize - 1) blockSize = 1"
  by (simp add: c_div_def blockSize_def)

lemmas f32_ev = fvec_add_def fvec_sub_def fvec_scale_def fvec_div_def fvec_zero_def
  glm_dot_f32_def glm_length_f32_def glm_inversesqrt_f32_def glm_normalize_f32_def
  fmin_def fsub_def maxSpeed_f32_def scene_scale_f32_def

lemma sq_small: "(1 / 2 ^ 80 :: real) * (1 / 2 ^ 80) = 1 / 2 ^ 160"
  by simp

lemma sq_large: "(2 ^ 64 :: real) * 2 ^ 64 = 2 ^ 128"
  by simp

text \<open>
  Claim C4 asks that the update store the sum itself when it is no longer than
  \<open>maxSpeed\<close>, a vector of length \<open>maxSpeed\<close> in the same direction when it is longer,
  and the zero vector, not NaN, for the zero sum. In binary32 the squared length of the
  sum \<open>(1 / 2 ^ 80, 0, 0)\<close> underflows to zero: the guard of the code tests the
  components of the sum, which are not all zero, and the product of \<^verbatim>\<open>normalize\<close>
  (infinite or NaN) and the speed zero is stored, NaN in every component. The squared
  length of \<open>(2 ^ 64, 0, 0)\<close> overflows: \<^verbatim>\<open>normalize\<close> gives the zero vector and zero
  is stored, not a vector of length \<open>maxSpeed\<close>. Both sums are binary32 numbers. For
  the zero sum the guard does its work, and a sum of ordinary size, \<open>(2, 0, 0)\<close>, is
  clamped to \<open>(1, 0, 0)\<close>.
\<close>

theorem updateVelocities_f32_extremes:
  "rnd (1 / 2 ^ 80) = Fin (1 / 2 ^ 80) \<and> rnd (2 ^ 64) = Fin (2 ^ 64) \<and>
   updateVelocities_f32 [FVec3 (Fin (1 / 2 ^ 80)) (Fin 0) (Fin 0)] fvec_zero 0 [v] =
     Some [FVec3 NaN NaN NaN] \<and>
   updateVelocities_f32 [FVec3 (Fin (2 ^ 64)) (Fin 0) (Fin 0)] fvec_zero 0 [v] =
     Some [FVec3 (Fin 0) (Fin 0) (Fin 0)] \<and>
   updateVelocities_f32 [fvec_zero] fvec_zero 0 [v] = Some [fvec_zero] \<and>
   glm_normalize_f32 fvec_zero = FVec3 NaN NaN NaN \<and>
   updateVelocities_f32 [FVec3 (Fin 2) (Fin 0) (Fin 0)] fvec_zero 0 [v] =
     Some [FVec3 (Fin 1) (Fin 0) (Fin 0)]"
proof (intro conjI)
  show "updateVelocities_f32 [FVec3 (Fin 2) (Fin 0) (Fin 0)] fvec_zero 0 [v] =
     Some [FVec3 (Fin 1) (Fin 0) (Fin 0)]"
    unfolding updateVelocities_f32_def f32_ev Let_def by (simp add: rnd_half)
  show "rnd (1 / 2 ^ 80) = Fin (1 / 2 ^ 80)" by (rule rnd_small)
  show "rnd (2 ^ 64) = Fin (2 ^ 64)" by (rule rnd_large)
  show "updateVelocities_f32 [FVec3 (Fin (1 / 2 ^ 80)) (Fin 0) (Fin 0)] fvec_zero 0 [v] =
     Some [FVec3 NaN NaN NaN]"
    unfolding updateVelocities_f32_def f32_ev Let_def
    by (simp add: rnd_small rnd_tiny sq_small del: power_numeral)
  show "updateVelocities_f32 [FVec3 (Fin (2 ^ 64)) (Fin 0) (Fin 0)] fvec_zero 0 [v] =
     Some [FVec3 (Fin 0) (Fin 0) (Fin 0)]"
    unfolding updateVelocities_f32_def f32_ev Let_def
    by (simp add: rnd_large rnd_huge sq_large del: power_numeral)
  show "updateVelocities_f32 [fvec_zero] fvec_zero 0 [v] = Some [fvec_zero]"
    unfolding updateVelocities_f32_def f32_ev Let_def by simp
  show "glm_normalize_f32 fvec_zero = FVec3 NaN NaN NaN"
    unfolding f32_ev by simp
qed

lemma one_boid_generate:
  "launch 1 (kernGenerateRandomPosArray_f32 (\<lambda>_ _. Fin 0) 1 1 scene_scale_f32) [fvec_zero] =
     Some [fvec_zero]"
proof -
  let ?k = "kernGenerateRandomPosArray_f32 (\<lambda>_ _. Fin 0) 1 1 scene_scale_f32"
  have "launch 1 ?k [fvec_zero] = for_loop 0 1 ?k [fvec_zero]"
    by (rule launch_guarded) (auto simp: kernGenerateRandomPosArray_f32_def blockSize_def)
  also have "\<dots> = Some [fvec_zero]"
    by (simp add: for_loop.simps kernGenerateRandomPosArray_f32_def generateRandomVec3_f32_def
        scene_scale_f32_def fvec_zero_def rd_def wr_def c_int_def)
  finally show ?thesis .
qed

lemma fullBlocks_1': "c_div blockSize blockSize = 1"
  by (simp add: c_div_def blockSize_def)

lemma half_side_f32:
  "f2i (fdiv scene_scale_f32
          (fmul (Fin 2) (std_max (std_max rule1Distance_f32 rule2Distance_f32) rule3Distance_f32))) =
   Some 10"
  by (simp add: std_max_def rule1Distance_f32_def rule2Distance_f32_def rule3Distance_f32_def
      scene_scale_f32_def c_int_def)

lemma one_boid_init:
  "\<exists>st. initSimulation_f32 (\<lambda>_ _. Fin 0) nan_junk (\<lambda>_ _. 0) 1 = Some st \<and>
        numObjects32 st = 1 \<and>
        mem (dev_pos32 st) = [fvec_zero] \<and>
        mem (dev_vel1_32 st) = [FVec3 NaN NaN NaN] \<and>
        mem (dev_vel2_32 st) = [fvec_zero]"
  unfolding initSimulation_f32_def
  by (simp add: Let_def cudaMalloc_def fullBlocks_1' nan_junk_def one_boid_generate upd_def
      half_side_f32 del: upt_rec_numeral cong: bind_weak_cong)

lemma one_boid_velocity:
  "launch 1 (kernUpdateVelocityBruteForce_f32 1 [fvec_zero] [FVec3 NaN NaN NaN]) [fvec_zero] =
     Some [FVec3 NaN NaN NaN]"
proof -
  let ?k = "kernUpdateVelocityBruteForce_f32 1 [fvec_zero] [FVec3 NaN NaN NaN]"
  have "launch 1 ?k [fvec_zero] = for_loop 0 1 ?k [fvec_zero]"
    by (rule launch_guarded) (auto simp: kernUpdateVelocityBruteForce_f32_def blockSize_def)
  also have "\<dots> = Some [FVec3 NaN NaN NaN]"
    by (simp add: for_loop.simps kernUpdateVelocityBruteForce_f32_def
        computeVelocityChange_f32_def updateVelocities_f32_def f32_ev Let_def rd_def wr_def
        rule1Scale_f32_def rule2Scale_f32_def rule3Scale_f32_def rnd_hundredth rnd_tenth)
  finally show ?thesis .
qed

lemma one_boid_position:
  "launch 1 (kernUpdatePos_f32 1 dt [FVec3 NaN NaN NaN]) [fvec_zero] = Some [FVec3 NaN NaN NaN]"
proof -
  let ?k = "kernUpdatePos_f32 1 dt [FVec3 NaN NaN NaN]"
  have "launch 1 ?k [fvec_zero] = for_loop 0 1 ?k [fvec_zero]"
    by (rule launch_guarded) (auto simp: kernUpdatePos_f32_def blockSize_def)
  also have "\<dots> = Some [FVec3 NaN NaN NaN]"
    by (simp add: for_loop.simps kernUpdatePos_f32_def f32_ev Let_def rd_def wr_def)
  finally show ?thesis .
qed

text \<open>
  Claim C8 asks that every coordinate of every position stay within the scene bounds
  after \<^verbatim>\<open>initSimulation\<close> and any steps. \<^verbatim>\<open>initSimulation\<close> allocates the
  velocity buffers and never writes them, and the first step reads \<^verbatim>\<open>dev_vel1\<close>. With
  one agent and fresh memory that holds NaN there, the brute-force step stores NaN as
  the new velocity and, for every \<open>dt\<close>, NaN as the new position: both comparisons of
  the wrap are false for NaN.
\<close>

theorem nan_velocity_leaves_scene:
  "\<exists>st st'.
     initSimulation_f32 (\<lambda>_ _. Fin 0) nan_junk (\<lambda>_ _. 0) 1 = Some st \<and>
     mem (dev_pos32 st) = [FVec3 (Fin 0) (Fin 0) (Fin 0)] \<and>
     mem (dev_vel1_32 st) = [FVec3 NaN NaN NaN] \<and>
     stepSimulationNaive_f32 dt st = Some st' \<and>
     mem (dev_pos32 st') = [FVec3 NaN NaN NaN] \<and>
     \<not> in_scene_f32 (mem (dev_pos32 st') ! 0)"
proof -
  from one_boid_init obtain st where
    i: "initSimulation_f32 (\<lambda>_ _. Fin 0) nan_junk (\<lambda>_ _. 0) 1 = Some st"
    and s: "numObjects32 st = 1" "mem (dev_pos32 st) = [fvec_zero]"
      "mem (dev_vel1_32 st) = [FVec3 NaN NaN NaN]" "mem (dev_vel2_32 st) = [fvec_zero]"
    by blast
  have "\<exists>st'. stepSimulationNaive_f32 dt st = Some st' \<and>
          mem (dev_pos32 st') = [FVec3 NaN NaN NaN]"
    unfolding stepSimulationNaive_f32_def
    by (simp add: Let_def s fullBlocks_1' one_boid_velocity one_boid_position upd_def)
  then obtain st' where t: "stepSimulationNaive_f32 dt st = Some st'"
    "mem (dev_pos32 st') = [FVec3 NaN NaN NaN]" by blast
  have "\<not> in_scene_f32 (mem (dev_pos32 st') ! 0)"
    by (simp add: t in_scene_f32_def fle_def scene_scale_f32_def)
  with i s t show ?thesis by (auto simp: fvec_zero_def)
qed

end
